theory Spec2Isabelle
  imports Main "HOL-Library.AList" "HOL-Library.Sublist"
begin

section \<open>Strings\<close>

text \<open>
  A Python \<open>str\<close> is a sequence of Unicode code points, so a string is a list of
  natural numbers here (Cyrillic letters, the non-breaking space and the curly quotes
  do not fit an 8-bit character). \<open>ascii\<close> turns an ASCII literal into code points.
\<close>

type_synonym ustr = "nat list"

definition ascii :: "string \<Rightarrow> ustr" where
  "ascii s = map of_char s"

text \<open>
  A value that a function typed \<open>str\<close> can still receive at run time: a string, or
  anything else (\<open>None\<close>, a number, a list, ...), kept as it is.
\<close>

datatype 'a pyval = Str ustr | Other 'a

section \<open>flow\_core.escape\_md\_v2\<close>

definition BACKSLASH :: nat where "BACKSLASH = 92"
definition STAR :: nat where "STAR = 42"
definition UNDERSCORE :: nat where "UNDERSCORE = 95"

text \<open>
  The character class of \<open>base_pattern\<close>:
  backslash, \<open>[\<close>, \<open>]\<close>, \<open>(\<close>, \<open>)\<close>, \<open>~\<close>, backtick, \<open>>\<close>, \<open>#\<close>, \<open>+\<close>, \<open>-\<close>, \<open>=\<close>,
  \<open>|\<close>, \<open>{\<close>, \<open>}\<close>, \<open>.\<close>, \<open>!\<close>.
\<close>

definition base_special :: "nat \<Rightarrow> bool" where
  "base_special c \<longleftrightarrow>
     c \<in> set [92, 91, 93, 40, 41, 126, 96, 62, 35, 43, 45, 61, 124, 123, 125, 46, 33]"

text \<open>\<open>pattern.sub(lambda m: "\\" + m.group(1), text)\<close> for a one-character class.\<close>

fun re_sub_escape :: "(nat \<Rightarrow> bool) \<Rightarrow> ustr \<Rightarrow> ustr" where
  "re_sub_escape cls [] = []"
| "re_sub_escape cls (c # cs) =
     (if cls c then BACKSLASH # c # re_sub_escape cls cs else c # re_sub_escape cls cs)"

definition marker_class :: "nat \<Rightarrow> bool" where
  "marker_class c \<longleftrightarrow> c = UNDERSCORE \<or> c = STAR"

text \<open>\<open>positions = [i for i, ch in enumerate(s) if ch == marker]\<close>\<close>

definition positions :: "nat \<Rightarrow> ustr \<Rightarrow> nat list" where
  "positions marker s = map fst (filter (\<lambda>(i, ch). ch = marker) (enumerate 0 s))"

text \<open>\<open>range(0, n - 1, 2)\<close>; for \<open>n = 0\<close> the range is empty, as \<open>range(0, -1, 2)\<close> is.\<close>

definition pair_range :: "nat \<Rightarrow> nat list" where
  "pair_range n = filter even [0 ..< n - 1]"

definition allow_pos :: "nat list \<Rightarrow> nat set" where
  "allow_pos ps =
     fold (\<lambda>i acc. insert (ps ! (i + 1)) (insert (ps ! i) acc)) (pair_range (length ps)) {}"

definition preserve_pairs :: "ustr \<Rightarrow> nat \<Rightarrow> ustr" where
  "preserve_pairs s marker =
     (let ps = positions marker s in
      if ps = [] then s
      else
        let allowed = allow_pos ps in
        concat (map (\<lambda>(idx, ch).
                  if ch = marker then (if idx \<in> allowed then [ch] else [BACKSLASH, ch])
                  else [ch])
                (enumerate 0 s)))"

definition escape_md_v2 :: "'a pyval \<Rightarrow> bool \<Rightarrow> 'a pyval" where
  "escape_md_v2 text allow_markdown =
     (case text of
        Other x \<Rightarrow> Other x
      | Str t \<Rightarrow>
          (let escaped = re_sub_escape base_special t in
           if \<not> allow_markdown then Str (re_sub_escape marker_class escaped)
           else
             let result = preserve_pairs escaped STAR;
                 result = preserve_pairs result UNDERSCORE
             in Str result))"

text \<open>
  Reading an escaped text as the renderer does: a backslash takes the next character
  with it. \<open>unescaped cls s\<close> holds when a character of \<open>cls\<close> occurs in \<open>s\<close> outside
  such a pair.
\<close>

fun unescaped :: "(nat \<Rightarrow> bool) \<Rightarrow> ustr \<Rightarrow> bool" where
  "unescaped cls [] = False"
| "unescaped cls [c] = cls c"
| "unescaped cls (c # d # cs) =
     (if c = 92 then unescaped cls cs else cls c \<or> unescaped cls (d # cs))"

definition plain_special :: "nat \<Rightarrow> bool" where
  "plain_special c \<longleftrightarrow> c \<in> set [95, 42, 46, 33, 45]"

text \<open>
  The pairing rule in the words of the specification: with \<open>n\<close> markers in the text, the
  markers are grouped from the left into \<open>n div 2\<close> pairs; the \<open>k\<close>-th marker (counted
  from 0) belongs to pair \<open>k div 2\<close> and stays literal when that pair is complete,
  otherwise it gets a backslash.
\<close>

fun pair_escape :: "nat \<Rightarrow> nat \<Rightarrow> nat \<Rightarrow> ustr \<Rightarrow> ustr" where
  "pair_escape marker n k [] = []"
| "pair_escape marker n k (c # cs) =
     (if c = marker
      then (if k div 2 < n div 2 then [c] else [92, c]) @ pair_escape marker n (Suc k) cs
      else c # pair_escape marker n k cs)"

definition pair_markers :: "nat \<Rightarrow> ustr \<Rightarrow> ustr" where
  "pair_markers marker s = pair_escape marker (count_list s marker) 0 s"

section \<open>bot\_app.normalize\_label\<close>

text \<open>
  The code points for which \<open>str.isspace\<close> holds. The regular expression class \<open>\s\<close>
  (on \<open>str\<close> patterns) and \<open>str.strip()\<close> use the same set.
\<close>

definition is_space :: "nat \<Rightarrow> bool" where
  "is_space c \<longleftrightarrow>
     (9 \<le> c \<and> c \<le> 13) \<or> (28 \<le> c \<and> c \<le> 32) \<or> c = 133 \<or> c = 160 \<or> c = 5760 \<or>
     (8192 \<le> c \<and> c \<le> 8202) \<or> c = 8232 \<or> c = 8233 \<or> c = 8239 \<or> c = 8287 \<or> c = 12288"

text \<open>\<open>text.replace(a, b)\<close> for one-character \<open>a\<close> and \<open>b\<close>.\<close>

definition replace_char :: "nat \<Rightarrow> nat \<Rightarrow> ustr \<Rightarrow> ustr" where
  "replace_char a b s = map (\<lambda>c. if c = a then b else c) s"

text \<open>\<open>re.sub(r"\s+", " ", text)\<close>: every maximal run of whitespace becomes one space.\<close>

function collapse_ws :: "ustr \<Rightarrow> ustr" where
  "collapse_ws [] = []"
| "collapse_ws (c # cs) =
     (if is_space c then 32 # collapse_ws (dropWhile is_space cs) else c # collapse_ws cs)"
  by pat_completeness auto
termination
  by (relation "measure length") (auto simp: less_Suc_eq_le length_dropWhile_le)

definition py_strip :: "ustr \<Rightarrow> ustr" where
  "py_strip s = rev (dropWhile is_space (rev (dropWhile is_space s)))"

text \<open>
  \<open>str.lower\<close> consults the Unicode character database of the Python runtime, which is
  not part of the repository: the lower-casing function is a parameter \<open>lower\<close>.
  The argument is \<open>None\<close> or a string.
\<close>

definition normalize_label :: "(ustr \<Rightarrow> ustr) \<Rightarrow> ustr option \<Rightarrow> ustr" where
  "normalize_label lower s =
     (case s of
        None \<Rightarrow> []
      | Some text \<Rightarrow>
          (let text = replace_char 160 32 text;
               text = replace_char 8217 39 text;
               text = replace_char 8216 39 text;
               text = replace_char 8220 34 text;
               text = replace_char 8221 34 text;
               text = collapse_ws text
           in lower (py_strip text)))"

text \<open>
  What the proof of idempotence needs of \<open>str.lower\<close>: lower-casing twice is lower-casing
  once; an ordinary space stays and separates what is on its two sides; and a text
  without whitespace and curly quotes stays so, a non-empty one non-empty.
\<close>

definition is_curly :: "nat \<Rightarrow> bool" where
  "is_curly c \<longleftrightarrow> c = 8216 \<or> c = 8217 \<or> c = 8220 \<or> c = 8221"

definition word_char :: "nat \<Rightarrow> bool" where
  "word_char c \<longleftrightarrow> \<not> is_space c \<and> \<not> is_curly c"

definition lower_idem :: "(ustr \<Rightarrow> ustr) \<Rightarrow> bool" where
  "lower_idem lower \<longleftrightarrow> (\<forall>s. lower (lower s) = lower s)"

definition lower_splits :: "(ustr \<Rightarrow> ustr) \<Rightarrow> bool" where
  "lower_splits lower \<longleftrightarrow> (\<forall>xs ys. lower (xs @ 32 # ys) = lower xs @ 32 # lower ys)"

definition lower_words :: "(ustr \<Rightarrow> ustr) \<Rightarrow> bool" where
  "lower_words lower \<longleftrightarrow>
     (\<forall>s. list_all word_char s \<longrightarrow> list_all word_char (lower s) \<and> (s \<noteq> [] \<longrightarrow> lower s \<noteq> []))"

text \<open>
  The lower-casing of ASCII and of the basic Cyrillic letters (U+0400 to U+042F), which is
  what \<open>str.lower\<close> does on texts in these two alphabets. It instantiates the parameter
  in the examples.
\<close>

definition lower_basic_cp :: "nat \<Rightarrow> nat" where
  "lower_basic_cp c =
     (if 65 \<le> c \<and> c \<le> 90 then c + 32
      else if 1040 \<le> c \<and> c \<le> 1071 then c + 32
      else if 1024 \<le> c \<and> c \<le> 1039 then c + 80
      else c)"

definition lower_basic :: "ustr \<Rightarrow> ustr" where
  "lower_basic s = map lower_basic_cp s"

text \<open>
  A text in the form \<open>normalize_label\<close> produces before lower-casing: the only whitespace
  is the ordinary space, never two in a row (\<open>single_spaced\<close>), none at either end, and
  there is no curly quote.
\<close>

fun single_spaced :: "ustr \<Rightarrow> bool" where
  "single_spaced [] = True"
| "single_spaced [c] = (is_space c \<longrightarrow> c = 32)"
| "single_spaced (c # d # cs) =
     ((is_space c \<longrightarrow> c = 32 \<and> \<not> is_space d) \<and> single_spaced (d # cs))"

definition normal_form :: "ustr \<Rightarrow> bool" where
  "normal_form t \<longleftrightarrow>
     single_spaced t \<and> list_all (\<lambda>c. \<not> is_curly c) t \<and>
     (t \<noteq> [] \<longrightarrow> \<not> is_space (hd t) \<and> \<not> is_space (last t))"

section \<open>Decimal rendering of integers\<close>

text \<open>\<open>str(n)\<close> for a Python \<open>int\<close>.\<close>

function digits_of :: "nat \<Rightarrow> ustr" where
  "digits_of n = (if n < 10 then [48 + n] else digits_of (n div 10) @ [48 + n mod 10])"
  by pat_completeness auto
termination
  by (relation "measure id") auto

definition str_int :: "int \<Rightarrow> ustr" where
  "str_int i = (if i < 0 then 45 # digits_of (nat (- i)) else digits_of (nat i))"

text \<open>Reading a digit string back, for the proof that \<open>str_int\<close> is injective.\<close>

definition digits_value :: "ustr \<Rightarrow> nat" where
  "digits_value ds = foldl (\<lambda>a d. 10 * a + (d - 48)) 0 ds"

section \<open>Data model\<close>

text \<open>
  An action descriptor is a dictionary read with \<open>act.get("type")\<close>,
  \<open>act.get("target")\<close> and \<open>act.get("payload", "")\<close>; a missing key is \<open>None\<close>.
\<close>

record action =
  a_type :: "ustr option"
  a_target :: "ustr option"
  a_payload :: "ustr option"

definition empty_action :: action where
  "empty_action = \<lparr>a_type = None, a_target = None, a_payload = None\<rparr>"

text \<open>An answer of the script: \<open>ans["label"]\<close> and \<open>ans.get("action", {})\<close>.\<close>

record answer =
  label :: ustr
  ans_action :: "action option"

text \<open>The values of \<open>action_map\<close>: \<open>{"orig": ..., "action": ...}\<close>.\<close>

record entry =
  orig :: ustr
  entry_action :: action

text \<open>
  A Python dictionary keeps its keys in insertion order, and storing under a key that is
  present replaces the value in place: an association list with \<open>AList.update\<close>.
\<close>

type_synonym action_map = "(ustr \<times> entry) list"

record pending =
  p_order_tag :: ustr
  p_method :: ustr

type_synonym meta = "string \<rightharpoonup> pending"

datatype step_text = NoText | Static ustr | Dynamic "meta \<Rightarrow> ustr"

text \<open>
  The dataclass \<open>Step\<close>. The two hooks are closures in the source; a hook is kept as
  what its closure captured: \<open>on_enter\<close> the document name given to \<open>make_on_enter\<close>,
  \<open>on_message\<close> the \<open>action_map\<close> given to \<open>make_on_message\<close>.
\<close>

record step =
  step_id :: ustr
  step_text :: step_text
  reply_keyboard_descriptor :: "ustr list list option"
  on_enter :: "ustr option"
  on_message :: "action_map option"
  preformatted_md :: bool

record flow_manager =
  fm_name :: ustr
  fm_steps :: "(ustr \<times> step) list"

text \<open>The data that the \<open>FSMContext\<close> holds for one user.\<close>

record session =
  s_flow :: "ustr option"
  s_step :: "ustr option"
  s_meta :: "meta option"
  s_awaiting_broadcast :: "bool option"

text \<open>
  An incoming message. \<open>photo\<close> and \<open>document\<close> say whether \<open>message.photo\<close> and
  \<open>message.document\<close> are truthy.
\<close>

record message =
  msg_text :: "ustr option"
  photo :: bool
  document :: bool
  from_user_id :: int
  chat_id :: int
  message_id :: int

datatype parse_mode = MARKDOWN_V2

datatype markup =
    ReplyKeyboardMarkup "ustr list list"
  | ReplyKeyboardRemove
  | InlineKeyboardMarkup "(ustr \<times> ustr) list list"

text \<open>
  The calls to the transport: \<open>message.answer\<close>, \<open>message.answer_document\<close>,
  \<open>message.answer_photo\<close>, \<open>bot.forward_message\<close> and \<open>bot.send_message\<close>.
\<close>

datatype call =
    Answer "unit pyval" "markup option" "parse_mode option"
  | AnswerDocument ustr
  | AnswerPhoto ustr
  | ForwardMessage int int int
  | SendMessage int "unit pyval" "markup option" "parse_mode option"

datatype log_entry =
    UnmatchedReply int "ustr option" ustr ustr "ustr list"
  | BroadcastFailed int
  | ImmediateBroadcastError
  | AwaitedBroadcastError
  | HandlerError

datatype py_error = TypeError | IndexError | TransportError

text \<open>
  What the handlers read from outside the repository: the lower-casing of the runtime,
  the clock (\<open>int(time.time())\<close>), \<open>admins.ADMIN_ID\<close>, \<open>bot_text.SYSTEM_TEXTS\<close>, whether a
  file exists next to the program, and whether the transport delivers a call or raises.
\<close>

record env =
  str_lower :: "ustr \<Rightarrow> ustr"
  time_seconds :: int
  ADMIN_ID :: "int option"
  SYSTEM_TEXTS :: "string \<rightharpoonup> ustr"
  file_exists :: "ustr \<Rightarrow> bool"
  delivers :: "call \<Rightarrow> bool"

text \<open>
  The state a handler works on: the session, the calls handed to the transport so far,
  the lines written to the log, the persisted list of user ids (\<open>users.json\<close>), and the
  exception that left the handler, if any. Of the log, only the lines for an unmatched
  reply, a failed broadcast send and a caught exception are kept; the tracing lines are
  left out.
\<close>

record run =
  sess :: session
  outbox :: "call list"
  logged :: "log_entry list"
  users_json :: "int list"
  raised :: "py_error option"

definition emit :: "call \<Rightarrow> run \<Rightarrow> run" where
  "emit c r = r\<lparr>outbox := outbox r @ [c]\<rparr>"

definition write_log :: "log_entry \<Rightarrow> run \<Rightarrow> run" where
  "write_log e r = r\<lparr>logged := logged r @ [e]\<rparr>"

text \<open>
  Where the delivery of a call matters, the transport is asked. A call inside \<open>try\<close>
  (\<open>guarded\<close>) is handed over and the block goes on with \<open>k\<close>, or the transport raises and
  the \<open>except\<close> branch \<open>h\<close> runs. A call outside \<open>try\<close> (\<open>unguarded\<close>) is handed over and
  the handler goes on with \<open>k\<close>, or the exception leaves the handler: what follows the
  call is not run. This is how every call of the receipt path and of the broadcast
  handlers is written; in the other branches a call is recorded with \<open>emit\<close>.
\<close>

definition guarded :: "env \<Rightarrow> call \<Rightarrow> (run \<Rightarrow> run) \<Rightarrow> (run \<Rightarrow> run) \<Rightarrow> run \<Rightarrow> run" where
  "guarded e c k h r = (if delivers e c then k (emit c r) else h r)"

definition unguarded :: "env \<Rightarrow> call \<Rightarrow> (run \<Rightarrow> run) \<Rightarrow> run \<Rightarrow> run" where
  "unguarded e c k r =
     (if delivers e c then k (emit c r) else r\<lparr>raised := Some TransportError\<rparr>)"

text \<open>\<open>ctx.get("meta", {})\<close>\<close>

definition get_meta :: "session \<Rightarrow> meta" where
  "get_meta s = (case s_meta s of None \<Rightarrow> Map.empty | Some m \<Rightarrow> m)"

text \<open>\<open>SYSTEM_TEXTS.get(key)\<close>: the text, or \<open>None\<close>.\<close>

definition system_text :: "env \<Rightarrow> string \<Rightarrow> unit pyval" where
  "system_text e key = (case SYSTEM_TEXTS e key of None \<Rightarrow> Other () | Some t \<Rightarrow> Str t)"

text \<open>The literals of the source, as code points.\<close>

definition PAID_TRIGGER :: ustr where
  "PAID_TRIGGER =
    [1086, 1087, 1083, 1072, 1090, 1080, 1083]"

definition STEP_NOT_FOUND :: ustr where
  "STEP_NOT_FOUND =
    [1064, 1072, 1075, 32, 1085, 1077, 32, 1085, 1072, 1081, 1076, 1077, 1085, 58, 32]"

definition USE_KEYBOARD :: ustr where
  "USE_KEYBOARD =
    [1055, 1086, 1078, 1072, 1083, 1091, 1081, 1089, 1090, 1072, 44, 32, 1080, 1089, 1087,
     1086, 1083, 1100, 1079, 1091, 1081, 1090, 1077, 32, 1082, 1085, 1086, 1087, 1082,
     1080, 32, 1085, 1072, 32, 1082, 1083, 1072, 1074, 1080, 1072, 1090, 1091, 1088, 1077,
     46]"

definition BTN_CONFIRM :: ustr where
  "BTN_CONFIRM =
    [1055, 1086, 1076, 1090, 1074, 1077, 1088, 1076, 1080, 1090, 1100]"

definition BTN_DECLINE :: ustr where
  "BTN_DECLINE =
    [1054, 1090, 1082, 1083, 1086, 1085, 1080, 1090, 1100]"

definition PAYMENT_FROM :: ustr where
  "PAYMENT_FROM =
    [1055, 1083, 1072, 1090, 1105, 1078, 32, 1086, 1090, 32, 117, 115, 101, 114, 95, 105,
     100, 61]"

definition BROADCAST_DONE :: ustr where
  "BROADCAST_DONE =
    [1056, 1072, 1089, 1089, 1099, 1083, 1082, 1072, 32, 1074, 1099, 1087, 1086, 1083,
     1085, 1077, 1085, 1072, 46, 32, 1054, 1090, 1087, 1088, 1072, 1074, 1083, 1077, 1085,
     1086, 58, 32]"

definition BROADCAST_DONE_TAIL :: ustr where
  "BROADCAST_DONE_TAIL =
    [32, 1087, 1086, 1083, 1100, 1079, 1086, 1074, 1072, 1090, 1077, 1083, 1103, 1084, 46]"

definition BROADCAST_EMPTY :: ustr where
  "BROADCAST_EMPTY =
    [1055, 1091, 1089, 1090, 1086, 1077, 32, 1089, 1086, 1086, 1073, 1097, 1077, 1085,
     1080, 1077, 32, 1088, 1072, 1089, 1089, 1099, 1083, 1082, 1080, 44, 32, 1086, 1090,
     1084, 1077, 1085, 1072, 46]"

definition BROADCAST_EMPTY_RETRY :: ustr where
  "BROADCAST_EMPTY_RETRY =
    [1055, 1091, 1089, 1090, 1086, 1077, 32, 1089, 1086, 1086, 1073, 1097, 1077, 1085,
     1080, 1077, 32, 1088, 1072, 1089, 1089, 1099, 1083, 1082, 1080, 46, 32, 1054, 1090,
     1087, 1088, 1072, 1074, 1100, 1090, 1077, 32, 1090, 1077, 1082, 1089, 1090, 32, 1080,
     1083, 1080, 32, 1086, 1090, 1084, 1077, 1085, 1080, 1090, 1077, 46]"

definition ONLY_ADMIN_COMMAND :: ustr where
  "ONLY_ADMIN_COMMAND =
    [1058, 1086, 1083, 1100, 1082, 1086, 32, 1072, 1076, 1084, 1080, 1085, 1080, 1089,
     1090, 1088, 1072, 1090, 1086, 1088, 32, 1084, 1086, 1078, 1077, 1090, 32, 1080, 1089,
     1087, 1086, 1083, 1100, 1079, 1086, 1074, 1072, 1090, 1100, 32, 1101, 1090, 1091, 32,
     1082, 1086, 1084, 1072, 1085, 1076, 1091, 46]"

definition ONLY_ADMIN_BROADCAST :: ustr where
  "ONLY_ADMIN_BROADCAST =
    [1058, 1086, 1083, 1100, 1082, 1086, 32, 1072, 1076, 1084, 1080, 1085, 1080, 1089,
     1090, 1088, 1072, 1090, 1086, 1088, 32, 1084, 1086, 1078, 1077, 1090, 32, 1079, 1072,
     1087, 1091, 1089, 1082, 1072, 1090, 1100, 32, 1088, 1072, 1089, 1089, 1099, 1083,
     1082, 1091, 46]"

definition BROADCAST_INSTR :: ustr where
  "BROADCAST_INSTR =
    [1054, 1090, 1087, 1088, 1072, 1074, 1100, 1090, 1077, 32, 1089, 1086, 1086, 1073,
     1097, 1077, 1085, 1080, 1077, 32, 1088, 1072, 1089, 1089, 1099, 1083, 1082, 1080, 32,
     1074, 32, 1089, 1083, 1077, 1076, 1091, 1102, 1097, 1077, 1084, 32, 1092, 1086, 1088,
     1084, 1072, 1090, 1077, 58, 10, 10, 60, 1090, 1077, 1082, 1089, 1090, 32, 1088, 1072,
     1089, 1089, 1099, 1083, 1082, 1080, 62, 10, 10, 1055, 1088, 1080, 1084, 1077, 1095,
     1072, 1085, 1080, 1077, 58, 32, 1089, 1077, 1081, 1095, 1072, 1089, 32, 1088, 1072,
     1089, 1089, 1099, 1083, 1082, 1072, 32, 1086, 1090, 1087, 1088, 1072, 1074, 1083,
     1103, 1077, 1090, 32, 1090, 1086, 1083, 1100, 1082, 1086, 32, 1090, 1077, 1082, 1089,
     1090, 1086, 1074, 1099, 1077, 32, 1089, 1086, 1086, 1073, 1097, 1077, 1085, 1080,
     1103, 32, 1073, 1077, 1079, 32, 105, 110, 108, 105, 110, 101, 8209, 1082, 1085, 1086,
     1087, 1086, 1082, 46, 10, 1050, 1085, 1086, 1087, 1082, 1080, 32, 1084, 1086, 1078,
     1085, 1086, 32, 1074, 1077, 1088, 1085, 1091, 1090, 1100, 32, 1087, 1086, 1079, 1078,
     1077, 32, 8212, 32, 1090, 1086, 1075, 1076, 1072, 32, 1087, 1086, 1090, 1088, 1077,
     1073, 1091, 1077, 1090, 1089, 1103, 32, 1088, 1077, 1072, 1083, 1080, 1079, 1086,
     1074, 1072, 1090, 1100, 32, 1086, 1073, 1088, 1072, 1073, 1086, 1090, 1095, 1080,
     1082, 1080, 32, 99, 97, 108, 108, 98, 97, 99, 107, 39, 1086, 1074, 46, 10, 10, 1055,
     1088, 1080, 1084, 1077, 1088, 58, 10, 1055, 1088, 1080, 1074, 1077, 1090, 33, 32,
     1059, 32, 1085, 1072, 1089, 32, 1086, 1073, 1085, 1086, 1074, 1083, 1077, 1085, 1080,
     1077, 46, 10, 40, 1086, 1090, 1087, 1088, 1072, 1074, 1100, 1090, 1077, 32, 1087,
     1088, 1086, 1089, 1090, 1086, 1081, 32, 1090, 1077, 1082, 1089, 1090, 44, 32, 1086,
     1085, 32, 1073, 1091, 1076, 1077, 1090, 32, 1088, 1072, 1079, 1086, 1089, 1083, 1072,
     1085, 32, 1074, 1089, 1077, 1084, 32, 1087, 1086, 1083, 1100, 1079, 1086, 1074, 1072,
     1090, 1077, 1083, 1103, 1084, 41]"

section \<open>flow\_core.FlowManager\<close>

definition add_step :: "step \<Rightarrow> flow_manager \<Rightarrow> flow_manager" where
  "add_step st fm = fm\<lparr>fm_steps := AList.update (step_id st) st (fm_steps fm)\<rparr>"

definition get_step :: "flow_manager \<Rightarrow> ustr \<Rightarrow> step option" where
  "get_step fm sid = map_of (fm_steps fm) sid"

text \<open>
  \<open>_enter_step\<close>: the text is resolved with the current meta, the keyboard is built (or
  removed when the descriptor is missing or empty), the \<open>on_enter\<close> hook sends its
  document if the file exists, and the escaped text is sent unless it is empty.
\<close>

definition enter_step :: "env \<Rightarrow> step \<Rightarrow> run \<Rightarrow> run" where
  "enter_step e st r =
     (let meta = get_meta (sess r);
          text = (case step_text st of Dynamic f \<Rightarrow> f meta | Static t \<Rightarrow> t | NoText \<Rightarrow> []);
          reply_kb = (case reply_keyboard_descriptor st of
                        None \<Rightarrow> ReplyKeyboardRemove
                      | Some d \<Rightarrow> if d = [] then ReplyKeyboardRemove else ReplyKeyboardMarkup d);
          r = (case on_enter st of
                 None \<Rightarrow> r
               | Some doc \<Rightarrow> if file_exists e doc then emit (AnswerDocument doc) r else r)
      in if text = [] then r
         else emit (Answer (escape_md_v2 (Str text) (preformatted_md st))
                      (Some reply_kb) (Some MARKDOWN_V2)) r)"

text \<open>
  \<open>start\<close>. The parameter is typed \<open>str\<close>, but \<open>on_msg\<close> passes \<open>act.get("target")\<close>,
  which is \<open>None\<close> for an action without a target: then \<open>self.steps.get(None)\<close> finds
  nothing and \<open>"..." + step_id\<close> raises \<open>TypeError\<close>.
\<close>

definition start :: "flow_manager \<Rightarrow> env \<Rightarrow> ustr option \<Rightarrow> run \<Rightarrow> run" where
  "start fm e target r =
     (case target of
        None \<Rightarrow> r\<lparr>raised := Some TypeError\<rparr>
      | Some sid \<Rightarrow>
          (case get_step fm sid of
             None \<Rightarrow>
               emit (Answer (escape_md_v2 (Str (STEP_NOT_FOUND @ sid)) False)
                       None (Some MARKDOWN_V2)) r
           | Some st \<Rightarrow>
               enter_step e st
                 (r\<lparr>sess := (sess r)\<lparr>s_flow := Some (fm_name fm), s_step := Some sid,
                                      s_meta := Some Map.empty\<rparr>\<rparr>)))"

section \<open>bot\_app: the message handler of a step\<close>

text \<open>\<open>(message.text or "")\<close>\<close>

definition text_or_empty :: "message \<Rightarrow> ustr" where
  "text_or_empty m = (case msg_text m of None \<Rightarrow> [] | Some t \<Rightarrow> t)"

text \<open>
  The control message for the admin: the order context and the two decision buttons,
  whose callback data is \<open>pay_confirm:<user id>:<order tag>\<close> and
  \<open>pay_decline:<user id>:<order tag>\<close>.
\<close>

definition receipt_note :: "message \<Rightarrow> int \<Rightarrow> pending \<Rightarrow> call" where
  "receipt_note m admin_id p =
     (let uid = str_int (from_user_id m);
          kb = InlineKeyboardMarkup
                 [[(BTN_CONFIRM, ascii ''pay_confirm:'' @ uid @ ascii '':'' @ p_order_tag p),
                   (BTN_DECLINE, ascii ''pay_decline:'' @ uid @ ascii '':'' @ p_order_tag p)]]
      in SendMessage admin_id
           (escape_md_v2 (Str (PAYMENT_FROM @ uid @ ascii '', order='' @ p_order_tag p
                                @ ascii '', method='' @ p_method p)) False)
           (Some kb) (Some MARKDOWN_V2))"

definition receipt_ack :: "env \<Rightarrow> call" where
  "receipt_ack e =
     Answer (escape_md_v2 (system_text e ''receipt_sent'') False) None (Some MARKDOWN_V2)"

definition receipt_failed :: "env \<Rightarrow> call" where
  "receipt_failed e =
     Answer (escape_md_v2 (system_text e ''receipt_send_failed'') False) None (Some MARKDOWN_V2)"

definition receipt_no_admin :: "env \<Rightarrow> call" where
  "receipt_no_admin e =
     Answer (escape_md_v2 (system_text e ''no_admin'') False) None (Some MARKDOWN_V2)"

text \<open>
  The \<open>try\<close> and \<open>except\<close> of the receipt path: forward the message, send the admin the
  control message, acknowledge to the user. The first call that the transport does not
  deliver ends the block, and the \<open>except\<close> branch sends the failure notice, outside
  any \<open>try\<close>. \<open>k\<close> is what follows the statement.
\<close>

definition forward_receipt ::
  "env \<Rightarrow> message \<Rightarrow> int \<Rightarrow> pending \<Rightarrow> (run \<Rightarrow> run) \<Rightarrow> run \<Rightarrow> run" where
  "forward_receipt e m admin_id p k r =
     (let fwd = ForwardMessage admin_id (chat_id m) (message_id m);
          note = receipt_note m admin_id p;
          ack = receipt_ack e;
          failed = receipt_failed e;
          except = unguarded e failed k
      in guarded e fwd (guarded e note (guarded e ack k except) except) except r)"

text \<open>\<open>user_meta.pop("pending_payment", None)\<close> and \<open>state.update_data({"meta": user_meta})\<close>\<close>

definition clear_pending :: "meta \<Rightarrow> run \<Rightarrow> run" where
  "clear_pending user_meta r =
     r\<lparr>sess := (sess r)\<lparr>s_meta := Some (user_meta(''pending_payment'' := None))\<rparr>\<rparr>"

text \<open>\<open>if admin_id:\<close> holds for a number other than 0.\<close>

definition admin_configured :: "env \<Rightarrow> int option" where
  "admin_configured e =
     (case ADMIN_ID e of None \<Rightarrow> None | Some a \<Rightarrow> if a = 0 then None else Some a)"

definition on_msg :: "flow_manager \<Rightarrow> env \<Rightarrow> action_map \<Rightarrow> message \<Rightarrow> run \<Rightarrow> run" where
  "on_msg fm e map_local m r =
     (let user_meta = get_meta (sess r) in
      case (if photo m \<or> document m then user_meta ''pending_payment'' else None) of
        Some pending \<Rightarrow>
          (case admin_configured e of
             Some admin_id \<Rightarrow> forward_receipt e m admin_id pending (clear_pending user_meta) r
           | None \<Rightarrow> unguarded e (receipt_no_admin e) (clear_pending user_meta) r)
      | None \<Rightarrow>
          (let txt_raw = text_or_empty m;
               txt = normalize_label (str_lower e) (Some txt_raw)
           in case map_of map_local txt of
                None \<Rightarrow>
                  (let current_step = s_step (sess r);
                       available = map (\<lambda>kv. orig (snd kv)) map_local;
                       r = write_log (UnmatchedReply (from_user_id m) current_step
                                        (take 200 txt_raw) (take 200 txt) available) r
                   in emit (Answer (escape_md_v2 (system_text e ''use_buttons'') False)
                              None (Some MARKDOWN_V2)) r)
              | Some act_entry \<Rightarrow>
                  (let act = entry_action act_entry;
                       kind = a_type act
                   in if prefix PAID_TRIGGER (str_lower e txt) then
                        (let order_tag = str_int (time_seconds e);
                             user_meta = user_meta(''pending_payment'' \<mapsto>
                                           \<lparr>p_order_tag = order_tag, p_method = txt\<rparr>);
                             r = r\<lparr>sess := (sess r)\<lparr>s_meta := Some user_meta\<rparr>\<rparr>
                         in emit (Answer (escape_md_v2 (system_text e ''send_receipt_instr'') False)
                                    (Some ReplyKeyboardRemove) (Some MARKDOWN_V2)) r)
                      else if kind = Some (ascii ''goto'') then start fm e (a_target act) r
                      else if kind = Some (ascii ''screenshot'') then
                        (let r = (if file_exists e (ascii ''screenshot1.png'')
                                  then emit (AnswerPhoto (ascii ''screenshot1.png'')) r else r);
                             r = (if file_exists e (ascii ''screenshot2.png'')
                                  then emit (AnswerPhoto (ascii ''screenshot2.png'')) r else r)
                         in case a_target act of
                              None \<Rightarrow> r
                            | Some t \<Rightarrow> if t = [] then r else start fm e (Some t) r)
                      else if kind = Some (ascii ''raw'') then
                        emit (Answer (escape_md_v2
                                        (Str (case a_payload act of None \<Rightarrow> [] | Some t \<Rightarrow> t)) False)
                                None (Some MARKDOWN_V2)) r
                      else
                        emit (Answer (escape_md_v2 (system_text e ''unknown_action'') False)
                                None (Some MARKDOWN_V2)) r)))"

text \<open>\<open>FlowManager.handle_message\<close>\<close>

definition handle_message :: "flow_manager \<Rightarrow> env \<Rightarrow> message \<Rightarrow> run \<Rightarrow> run" where
  "handle_message fm e m r =
     (let fallback = emit (Answer (escape_md_v2 (Str USE_KEYBOARD) False)
                             None (Some MARKDOWN_V2)) r
      in case s_step (sess r) of
           None \<Rightarrow> r
         | Some sid \<Rightarrow>
             if sid = [] then r
             else (case get_step fm sid of
                     None \<Rightarrow> fallback
                   | Some st \<Rightarrow>
                       (case on_message st of
                          None \<Rightarrow> fallback
                        | Some map_local \<Rightarrow> on_msg fm e map_local m r)))"

section \<open>bot\_app.build\_flow\_from\_struct\<close>

datatype script_text = Text ustr | TextLines "ustr list"

record step_info =
  info_text :: script_text
  info_answers :: "answer list"
  info_document :: "ustr option"
  info_md_v2 :: bool

text \<open>\<open>"\n".join(lines)\<close>\<close>

fun join_lines :: "ustr list \<Rightarrow> ustr" where
  "join_lines [] = []"
| "join_lines [l] = l"
| "join_lines (l # ls) = l @ 10 # join_lines ls"

text \<open>The dictionary comprehension that builds \<open>action_map\<close>: a later answer with the same
  normalized label replaces the entry of an earlier one.\<close>

definition make_action_map :: "(ustr \<Rightarrow> ustr) \<Rightarrow> answer list \<Rightarrow> action_map" where
  "make_action_map lower answers =
     fold (\<lambda>ans acc.
             AList.update (normalize_label lower (Some (label ans)))
               \<lparr>orig = label ans,
                entry_action = (case ans_action ans of None \<Rightarrow> empty_action | Some a \<Rightarrow> a)\<rparr>
               acc)
          answers []"

definition build_step :: "(ustr \<Rightarrow> ustr) \<Rightarrow> ustr \<Rightarrow> step_info \<Rightarrow> step" where
  "build_step lower sid info =
     (let text = (case info_text info of Text t \<Rightarrow> t | TextLines ls \<Rightarrow> join_lines ls);
          answers = info_answers info;
          hook = (case info_document info of
                    None \<Rightarrow> None
                  | Some doc \<Rightarrow> if doc = [] then None else Some doc)
      in if answers = [] then
           \<lparr>step_id = sid, step_text = Static text, reply_keyboard_descriptor = None,
            on_enter = hook, on_message = None, preformatted_md = info_md_v2 info\<rparr>
         else
           \<lparr>step_id = sid, step_text = Static text,
            reply_keyboard_descriptor = Some (map (\<lambda>ans. [label ans]) answers),
            on_enter = hook, on_message = Some (make_action_map lower answers),
            preformatted_md = info_md_v2 info\<rparr>)"

definition build_flow_from_struct ::
  "(ustr \<Rightarrow> ustr) \<Rightarrow> (ustr \<times> step_info) list \<Rightarrow> flow_manager" where
  "build_flow_from_struct lower steps_struct =
     fold (\<lambda>(sid, info). add_step (build_step lower sid info)) steps_struct
       \<lparr>fm_name = ascii ''script_flow'', fm_steps = []\<rparr>"

section \<open>bot\_app: known users and broadcast\<close>

definition load_users :: "run \<Rightarrow> int set" where
  "load_users r = set (users_json r)"

definition save_users :: "int set \<Rightarrow> run \<Rightarrow> run" where
  "save_users users r = r\<lparr>users_json := sorted_list_of_set users\<rparr>"

definition add_user :: "int \<Rightarrow> run \<Rightarrow> run" where
  "add_user uid r =
     (let users = load_users r in
      if uid \<notin> users then save_users (insert uid users) r else r)"

text \<open>
  The loop \<open>for uid in sorted(users)\<close>: a send that the transport does not deliver is
  caught and logged, a delivered one is counted.
\<close>

fun broadcast_loop :: "env \<Rightarrow> ustr \<Rightarrow> int list \<Rightarrow> nat \<Rightarrow> run \<Rightarrow> nat \<times> run" where
  "broadcast_loop e payload [] sent r = (sent, r)"
| "broadcast_loop e payload (uid # uids) sent r =
     (let c = SendMessage uid (escape_md_v2 (Str payload) False) None (Some MARKDOWN_V2)
      in if delivers e c then broadcast_loop e payload uids (sent + 1) (emit c r)
         else broadcast_loop e payload uids sent (write_log (BroadcastFailed uid) r))"

text \<open>
  \<open>users = load_users()\<close>, \<open>sent = 0\<close> and the loop, and the report that follows them.
  The source has this block three times with the same text, in \<open>cmd_broadcast\<close> and
  twice in \<open>all_messages\<close>; what happens when the report is not delivered differs and is
  written out in each handler.
\<close>

definition broadcast_sends :: "env \<Rightarrow> ustr \<Rightarrow> run \<Rightarrow> nat \<times> run" where
  "broadcast_sends e payload r =
     broadcast_loop e payload (sorted_list_of_set (load_users r)) 0 r"

definition broadcast_report :: "nat \<Rightarrow> call" where
  "broadcast_report sent =
     Answer (Str (BROADCAST_DONE @ str_int (int sent) @ BROADCAST_DONE_TAIL)) None None"

text \<open>
  \<open>text.split(" ", 1)[1]\<close>: what follows the first space. Both callers have checked
  \<open>text.startswith("/broadcast ")\<close>, so the index is in range.
\<close>

definition after_first_space :: "ustr \<Rightarrow> ustr" where
  "after_first_space s = drop 1 (dropWhile (\<lambda>c. c \<noteq> 32) s)"

text \<open>\<open>cmd_broadcast\<close> has no \<open>try\<close> around its answers: an undelivered one raises.\<close>

definition cmd_broadcast :: "env \<Rightarrow> message \<Rightarrow> run \<Rightarrow> run" where
  "cmd_broadcast e m r =
     (if Some (from_user_id m) \<noteq> ADMIN_ID e then
        unguarded e (Answer (Str ONLY_ADMIN_COMMAND) None None) (\<lambda>r. r) r
      else
        let text = py_strip (text_or_empty m) in
        if prefix (ascii ''/broadcast '') text then
          (let payload = py_strip (after_first_space text) in
           if payload = [] then unguarded e (Answer (Str BROADCAST_EMPTY) None None) (\<lambda>r. r) r
           else
             let (sent, r) = broadcast_sends e payload r
             in unguarded e (broadcast_report sent) (\<lambda>r. r) r)
        else
          unguarded e (Answer (Str BROADCAST_INSTR) None None) (\<lambda>r. r)
            (r\<lparr>sess := (sess r)\<lparr>s_awaiting_broadcast := Some True\<rparr>\<rparr>))"

definition cmd_start :: "flow_manager \<Rightarrow> env \<Rightarrow> message \<Rightarrow> run \<Rightarrow> run" where
  "cmd_start fm e m r = start fm e (Some (ascii ''1'')) (add_user (from_user_id m) r)"

text \<open>
  \<open>all_messages\<close>, for a message with a sender, in its three blocks from the last to the
  first. Each block is a \<open>try\<close> whose \<open>except\<close> logs the exception; a block that is left
  by an exception has not reached its \<open>return\<close>, so the blocks after it run.

  The last block hands the message to the flow.
\<close>

definition flow_block :: "flow_manager \<Rightarrow> env \<Rightarrow> message \<Rightarrow> run \<Rightarrow> run" where
  "flow_block fm e m r =
     (if s_flow (sess r) = Some (fm_name fm) then
        (let r = handle_message fm e m r
         in case raised r of
              None \<Rightarrow> r
            | Some err \<Rightarrow> write_log HandlerError (r\<lparr>raised := None\<rparr>))
      else r)"

text \<open>
  The block for the payload that the admin sends after a bare \<open>/broadcast\<close>. The flag is
  reset after the report; an undelivered answer goes to the \<open>except\<close>, and the last block
  follows.
\<close>

definition awaited_block :: "flow_manager \<Rightarrow> env \<Rightarrow> message \<Rightarrow> run \<Rightarrow> run" where
  "awaited_block fm e m r =
     (let except = (\<lambda>r. flow_block fm e m (write_log AwaitedBroadcastError r)) in
      if s_awaiting_broadcast (sess r) = Some True \<and> Some (from_user_id m) = ADMIN_ID e then
        (let payload = py_strip (text_or_empty m) in
         if payload = [] then
           guarded e (Answer (Str BROADCAST_EMPTY_RETRY) None None) (\<lambda>r. r) except r
         else
           let (sent, r) = broadcast_sends e payload r
           in guarded e (broadcast_report sent)
                (\<lambda>r. r\<lparr>sess := (sess r)\<lparr>s_awaiting_broadcast := Some False\<rparr>\<rparr>) except r)
      else flow_block fm e m r)"

text \<open>
  The whole handler: a text that starts with \<open>/\<close> is left to the command handlers; the
  sender is recorded; then the block for \<open>/broadcast <text>\<close> in one message, whose
  \<open>except\<close> is followed by the two blocks above.
\<close>

definition all_messages :: "flow_manager \<Rightarrow> env \<Rightarrow> message \<Rightarrow> run \<Rightarrow> run" where
  "all_messages fm e m r =
     (if text_or_empty m \<noteq> [] \<and> hd (text_or_empty m) = 47 then r
      else
        let r = add_user (from_user_id m) r;
            text = py_strip (text_or_empty m);
            except = (\<lambda>r. awaited_block fm e m (write_log ImmediateBroadcastError r))
        in if prefix (ascii ''/broadcast '') text then
             (if Some (from_user_id m) = ADMIN_ID e then
                (let payload = py_strip (after_first_space text) in
                 if payload \<noteq> [] then
                   (let (sent, r) = broadcast_sends e payload r
                    in guarded e (broadcast_report sent) (\<lambda>r. r) except r)
                 else guarded e (Answer (Str BROADCAST_EMPTY) None None) (\<lambda>r. r) except r)
              else guarded e (Answer (Str ONLY_ADMIN_BROADCAST) None None) (\<lambda>r. r) except r)
           else awaited_block fm e m r)"

section \<open>Auxiliary notions for the proofs\<close>

text \<open>The positions of a marker, counted from an offset.\<close>

definition positions_from :: "nat \<Rightarrow> nat \<Rightarrow> ustr \<Rightarrow> nat list" where
  "positions_from off marker s =
     map fst (filter (\<lambda>(i, ch). ch = marker) (enumerate off s))"

text \<open>\<open>normalize_label\<close> before the lower-casing.\<close>

definition prep :: "ustr \<Rightarrow> ustr" where
  "prep t =
     py_strip (collapse_ws (replace_char 8221 34 (replace_char 8220 34
       (replace_char 8216 39 (replace_char 8217 39 (replace_char 160 32 t))))))"

text \<open>
  The two conditions that \<open>on_msg\<close> tests first: the message is a receipt for a pending
  payment; and, read from the message, the text that is looked up in the answers.
\<close>

definition takes_receipt_path :: "message \<Rightarrow> run \<Rightarrow> bool" where
  "takes_receipt_path m r \<longleftrightarrow>
     (photo m \<or> document m) \<and> get_meta (sess r) ''pending_payment'' \<noteq> None"

definition normalized_text :: "env \<Rightarrow> message \<Rightarrow> ustr" where
  "normalized_text e m = normalize_label (str_lower e) (Some (text_or_empty m))"

text \<open>The condition under which \<open>on_msg\<close> reaches and takes its payment branch.\<close>

definition payment_intent :: "env \<Rightarrow> action_map \<Rightarrow> message \<Rightarrow> run \<Rightarrow> bool" where
  "payment_intent e map_local m r \<longleftrightarrow>
     \<not> takes_receipt_path m r \<and> map_of map_local (normalized_text e m) \<noteq> None \<and>
     prefix PAID_TRIGGER (str_lower e (normalized_text e m))"

text \<open>The order tag that a run has stored in the session, if any.\<close>

definition stored_order_tag :: "run \<Rightarrow> ustr option" where
  "stored_order_tag r = map_option p_order_tag (get_meta (sess r) ''pending_payment'')"

text \<open>
  The receipt path has come to its end in \<open>r'\<close>: the pending mark is removed from the
  session of \<open>r\<close>, exactly \<open>calls\<close> were handed to the transport, nothing was logged and
  no exception was raised.
\<close>

definition receipt_done :: "run \<Rightarrow> call list \<Rightarrow> run \<Rightarrow> bool" where
  "receipt_done r calls r' \<longleftrightarrow>
     sess r' = (sess r)\<lparr>s_meta := Some ((get_meta (sess r))(''pending_payment'' := None))\<rparr> \<and>
     get_meta (sess r') ''pending_payment'' = None \<and>
     outbox r' = outbox r @ calls \<and> logged r' = logged r \<and>
     users_json r' = users_json r \<and> raised r' = raised r"

text \<open>The broadcast message to one user, and whether the transport delivers it.\<close>

definition broadcast_call :: "ustr \<Rightarrow> int \<Rightarrow> call" where
  "broadcast_call payload uid =
     SendMessage uid (escape_md_v2 (Str payload) False) None (Some MARKDOWN_V2)"

text \<open>
  For \<open>N\<close> known users of which \<open>K\<close> are those whose broadcast message the transport does
  not deliver, \<open>sent_count\<close> is \<open>N - K\<close>.
\<close>

definition sent_count :: "env \<Rightarrow> ustr \<Rightarrow> run \<Rightarrow> nat" where
  "sent_count e payload r =
     card (load_users r) - card {u \<in> load_users r. \<not> delivers e (broadcast_call payload u)}"

text \<open>
  A message that asks for a broadcast in one line, from the admin, and its payload
  (\<open>text.split(" ", 1)[1].strip()\<close> of the stripped text).
\<close>

definition immediate_payload :: "message \<Rightarrow> ustr" where
  "immediate_payload m = py_strip (after_first_space (py_strip (text_or_empty m)))"

definition immediate_request :: "env \<Rightarrow> message \<Rightarrow> bool" where
  "immediate_request e m \<longleftrightarrow>
     Some (from_user_id m) = ADMIN_ID e \<and>
     prefix (ascii ''/broadcast '') (py_strip (text_or_empty m)) \<and>
     immediate_payload m \<noteq> []"

section \<open>A small script and environment for the examples\<close>

text \<open>
  Step 1 offers two answers, the Cyrillic labels for "yes" (a \<open>goto\<close> to step 2) and for
  "paid by card" (a \<open>goto\<close> to step 9); step 2 has no answers. The system texts stand in
  for those of \<open>bot_text.py\<close>.
\<close>

definition goto :: "string \<Rightarrow> action" where
  "goto target = \<lparr>a_type = Some (ascii ''goto''), a_target = Some (ascii target), a_payload = None\<rparr>"

definition example_answers :: "answer list" where
  "example_answers =
     [\<lparr>label = [1044, 1072], ans_action = Some (goto ''2'')\<rparr>,
      \<lparr>label = [1054, 1087, 1083, 1072, 1090, 1080, 1083, 32, 1082, 1072, 1088, 1090, 1086, 1081],
       ans_action = Some (goto ''9'')\<rparr>]"

definition example_info :: step_info where
  "example_info = \<lparr>info_text = Text (ascii ''Welcome.''), info_answers = example_answers,
                    info_document = None, info_md_v2 = False\<rparr>"

definition example_script :: "(ustr \<times> step_info) list" where
  "example_script =
     [(ascii ''1'', example_info),
      (ascii ''2'', \<lparr>info_text = Text (ascii ''Done.''), info_answers = [],
                    info_document = None, info_md_v2 = False\<rparr>)]"

definition example_map :: action_map where
  "example_map = make_action_map lower_basic example_answers"

definition example_flow :: flow_manager where
  "example_flow = build_flow_from_struct lower_basic example_script"

definition example_texts :: "string \<rightharpoonup> ustr" where
  "example_texts =
     [''use_buttons'' \<mapsto> ascii ''Use the buttons'',
      ''send_receipt_instr'' \<mapsto> ascii ''Send your receipt'',
      ''receipt_sent'' \<mapsto> ascii ''Receipt sent'',
      ''receipt_send_failed'' \<mapsto> ascii ''Receipt not sent'',
      ''no_admin'' \<mapsto> ascii ''No admin'',
      ''unknown_action'' \<mapsto> ascii ''Unknown action'']"

definition example_env :: "int \<Rightarrow> (call \<Rightarrow> bool) \<Rightarrow> env" where
  "example_env now ok =
     \<lparr>str_lower = lower_basic, time_seconds = now, ADMIN_ID = Some 1000,
      SYSTEM_TEXTS = example_texts, file_exists = (\<lambda>f. False), delivers = ok\<rparr>"

definition always_delivers :: "call \<Rightarrow> bool" where
  "always_delivers c = True"

definition never_delivers :: "call \<Rightarrow> bool" where
  "never_delivers c = False"

text \<open>The transport delivers all but the messages sent to user 5.\<close>

definition fails_for_5 :: "call \<Rightarrow> bool" where
  "fails_for_5 c = (case c of SendMessage uid t k pm \<Rightarrow> uid \<noteq> 5 | _ \<Rightarrow> True)"

text \<open>The transport delivers the answers to the sender and nothing else, or all but them.\<close>

definition only_answers :: "call \<Rightarrow> bool" where
  "only_answers c = (case c of Answer t k pm \<Rightarrow> True | _ \<Rightarrow> False)"

definition all_but_answers :: "call \<Rightarrow> bool" where
  "all_but_answers c = (case c of Answer t k pm \<Rightarrow> False | _ \<Rightarrow> True)"

definition no_meta :: meta where
  "no_meta = Map.empty"

definition example_pending :: pending where
  "example_pending = \<lparr>p_order_tag = ascii ''1700000000'', p_method = ascii ''card''\<rparr>"

definition pending_meta :: meta where
  "pending_meta = [''pending_payment'' \<mapsto> example_pending]"

definition example_run :: "meta \<Rightarrow> run" where
  "example_run mt =
     \<lparr>sess = \<lparr>s_flow = Some (ascii ''script_flow''), s_step = Some (ascii ''1''),
              s_meta = Some mt, s_awaiting_broadcast = None\<rparr>,
      outbox = [], logged = [], users_json = [3, 5, 8], raised = None\<rparr>"

definition text_message :: "int \<Rightarrow> ustr \<Rightarrow> message" where
  "text_message uid t =
     \<lparr>msg_text = Some t, photo = False, document = False,
      from_user_id = uid, chat_id = uid, message_id = 1\<rparr>"

text \<open>
  Two texts that begin with the trigger word: the second label typed with a doubled and a
  trailing space, which matches that label, and the trigger word followed by \<open>cash\<close>,
  which matches no label. \<open>paid_normalized\<close> is the normalized second label.
\<close>

definition paid_message :: "int \<Rightarrow> message" where
  "paid_message uid =
     text_message uid [1054, 1087, 1083, 1072, 1090, 1080, 1083, 32, 32,
                       1082, 1072, 1088, 1090, 1086, 1081, 32]"

definition cash_message :: "int \<Rightarrow> message" where
  "cash_message uid = text_message uid (PAID_TRIGGER @ ascii '' cash'')"

definition paid_normalized :: ustr where
  "paid_normalized = [1086, 1087, 1083, 1072, 1090, 1080, 1083, 32,
                      1082, 1072, 1088, 1090, 1086, 1081]"

text \<open>The admin of the example (user 1000) sends \<open>/broadcast hi\<close> as a command.\<close>

definition admin_command :: message where
  "admin_command = text_message 1000 (ascii ''/broadcast hi'')"

definition photo_message :: "int \<Rightarrow> message" where
  "photo_message uid =
     \<lparr>msg_text = None, photo = True, document = False,
      from_user_id = uid, chat_id = uid, message_id = 2\<rparr>"

section \<open>Properties of the escaper\<close>

lemma unescaped_plain:
  "c \<noteq> 92 \<Longrightarrow> unescaped cls (c # cs) = (cls c \<or> unescaped cls cs)"
  by (cases cs) auto

lemma marker_not_base: "base_special c \<Longrightarrow> \<not> marker_class c"
  by (auto simp: base_special_def marker_class_def UNDERSCORE_def STAR_def)

lemma backslash_not_marker: "\<not> marker_class BACKSLASH"
  by (simp add: marker_class_def BACKSLASH_def UNDERSCORE_def STAR_def)

text \<open>The two substitution passes of the plain mode act as one pass over the input.\<close>

lemma two_passes:
  "re_sub_escape marker_class (re_sub_escape base_special t) =
   re_sub_escape (\<lambda>c. base_special c \<or> marker_class c) t"
  by (induction t) (auto simp: marker_not_base backslash_not_marker)

lemma escaped_none_unescaped:
  assumes "cls 92" and "\<And>c. cls' c \<Longrightarrow> cls c"
  shows "\<not> unescaped cls' (re_sub_escape cls t)"
proof (induction t)
  case Nil
  show ?case by simp
next
  case (Cons c cs)
  show ?case
  proof (cases "cls c")
    case True
    with Cons show ?thesis by (simp add: BACKSLASH_def)
  next
    case False
    with assms have "c \<noteq> 92" and "\<not> cls' c" by auto
    with False Cons show ?thesis by (simp add: unescaped_plain)
  qed
qed

text \<open>
  C10. A value that is not a string comes back from \<open>escape_md_v2\<close> as it is, whatever
  \<open>allow_markdown\<close> is; no branch of the function raises.
\<close>

theorem escape_md_v2_non_string: "escape_md_v2 (Other x) allow_markdown = Other x"
  by (simp add: escape_md_v2_def)

text \<open>
  C4. For every string \<open>t\<close>, \<open>escape_md_v2 t False\<close> is a string in which none of
  \<open>_\<close>, \<open>*\<close>, \<open>.\<close>, \<open>!\<close>, \<open>-\<close> occurs unescaped: read from the left, with every backslash
  taking the character after it, no such character is left over.
\<close>

theorem escape_plain_no_unescaped:
  "escape_md_v2 (Str t) False = Str (re_sub_escape marker_class (re_sub_escape base_special t))
   \<and> \<not> unescaped plain_special (re_sub_escape marker_class (re_sub_escape base_special t))"
proof -
  have "\<not> unescaped plain_special (re_sub_escape (\<lambda>c. base_special c \<or> marker_class c) t)"
  proof (rule escaped_none_unescaped)
    show "base_special 92 \<or> marker_class 92" by (simp add: base_special_def)
  next
    fix c
    assume "plain_special c"
    then show "base_special c \<or> marker_class c"
      by (auto simp: plain_special_def base_special_def marker_class_def
            UNDERSCORE_def STAR_def)
  qed
  then show ?thesis by (simp add: escape_md_v2_def two_passes)
qed

subsection \<open>Pairing of the emphasis markers\<close>

lemma fold_allow:
  "fold (\<lambda>i acc. insert (ps ! (i + 1)) (insert (ps ! i) acc)) xs A =
   A \<union> (\<Union>i \<in> set xs. {ps ! i, ps ! (i + 1)})"
  by (induction xs arbitrary: A) auto

lemma paired_indices:
  "(\<Union>i \<in> {i. i < n - 1 \<and> even i}. {i, i + 1}) = {j::nat. j < 2 * (n div 2)}" (is "?L = ?R")
proof (rule set_eqI)
  fix j :: nat
  show "j \<in> ?L \<longleftrightarrow> j \<in> ?R"
  proof
    assume "j \<in> ?L"
    then obtain i where i: "i < n - 1" "even i" "j = i \<or> j = i + 1" by auto
    from i(2) obtain k where k: "i = 2 * k" by (auto elim: evenE)
    with i(1) have "k < n div 2" by arith
    with k i(3) show "j \<in> ?R" by auto
  next
    assume "j \<in> ?R"
    then have j: "j < 2 * (n div 2)" by simp
    let ?i = "2 * (j div 2)"
    have "?i < n - 1" using j by arith
    moreover have "even ?i" by simp
    moreover have "j = ?i \<or> j = ?i + 1" by arith
    ultimately show "j \<in> ?L" by blast
  qed
qed

lemma allow_pos_take: "allow_pos ps = set (take (2 * (length ps div 2)) ps)"
proof -
  let ?n = "length ps"
  have "allow_pos ps = (\<Union>i \<in> {i. i < ?n - 1 \<and> even i}. {ps ! i, ps ! (i + 1)})"
    unfolding allow_pos_def pair_range_def fold_allow by auto
  also have "\<dots> = (!) ps ` (\<Union>i \<in> {i. i < ?n - 1 \<and> even i}. {i, i + 1})"
    by auto
  also have "\<dots> = (!) ps ` {0 ..< 2 * (?n div 2)}"
    by (simp only: paired_indices) (simp add: atLeast0LessThan lessThan_def)
  also have "\<dots> = set (take (2 * (?n div 2)) ps)"
    by (rule nth_image) simp
  finally show ?thesis .
qed

lemma nth_in_take:
  assumes "distinct P" and "k < length P"
  shows "P ! k \<in> set (take b P) \<longleftrightarrow> k < b"
proof
  assume "P ! k \<in> set (take b P)"
  then obtain j where j: "j < length (take b P)" "take b P ! j = P ! k"
    by (auto simp: in_set_conv_nth)
  then have "j < b" "j < length P" "P ! j = P ! k" by auto
  with assms have "j = k" by (simp add: nth_eq_iff_index_eq)
  with \<open>j < b\<close> show "k < b" by simp
next
  assume "k < b"
  with assms(2) show "P ! k \<in> set (take b P)"
    by (metis in_set_conv_nth length_take min_less_iff_conj nth_take)
qed

lemma walk_pairs:
  assumes "P = pre @ positions_from off marker s" and "distinct P"
  shows "concat (map (\<lambda>(idx, ch).
            if ch = marker then (if idx \<in> set (take (2 * (n div 2)) P) then [ch] else [BACKSLASH, ch])
            else [ch]) (enumerate off s))
         = pair_escape marker n (length pre) s"
  using assms
proof (induction s arbitrary: off pre)
  case Nil
  show ?case by simp
next
  case (Cons c cs)
  show ?case
  proof (cases "c = marker")
    case True
    with Cons.prems have P: "P = (pre @ [off]) @ positions_from (Suc off) marker cs"
      by (simp add: positions_from_def)
    then have "P ! length pre = off" "length pre < length P" by (simp_all add: nth_append)
    with nth_in_take [OF Cons.prems(2), of "length pre" "2 * (n div 2)"]
    have mem: "off \<in> set (take (2 * (n div 2)) P) \<longleftrightarrow> length pre < 2 * (n div 2)" by simp
    have "length pre < 2 * (n div 2) \<longleftrightarrow> length pre div 2 < n div 2" by arith
    with mem Cons.IH [OF P Cons.prems(2)] True show ?thesis
      by (simp add: BACKSLASH_def)
  next
    case False
    with Cons.prems have "P = pre @ positions_from (Suc off) marker cs"
      by (simp add: positions_from_def)
    from Cons.IH [OF this Cons.prems(2)] False show ?thesis by simp
  qed
qed

lemma distinct_positions: "distinct (positions marker s)"
  unfolding positions_def
  by (rule distinct_map_filter) simp

lemma length_positions: "length (positions marker s) = count_list s marker"
proof -
  have "length (positions_from off marker s) = count_list s marker" for off
    by (induction s arbitrary: off) (auto simp: positions_from_def)
  then show ?thesis by (simp add: positions_def positions_from_def)
qed

lemma pair_escape_no_marker: "marker \<notin> set s \<Longrightarrow> pair_escape marker n k s = s"
  by (induction s) auto

lemma preserve_pairs_spec: "preserve_pairs s marker = pair_markers marker s"
proof (cases "positions marker s = []")
  case True
  then have "count_list s marker = 0" using length_positions [of marker s] by simp
  then have "marker \<notin> set s" by (simp add: count_list_0_iff)
  with True show ?thesis
    by (simp add: preserve_pairs_def pair_markers_def pair_escape_no_marker)
next
  case False
  have "positions marker s = [] @ positions_from 0 marker s"
    by (simp add: positions_def positions_from_def)
  from walk_pairs [OF this distinct_positions, of "count_list s marker"] False
  show ?thesis
    by (simp add: preserve_pairs_def pair_markers_def allow_pos_take length_positions Let_def)
qed


text \<open>
  C3. With \<open>allow_markdown\<close>, the result is the base escaping followed by the pairing
  rule for \<open>*\<close> and then, on that result, for \<open>_\<close>: the markers are paired from the left,
  the markers of a complete pair stay literal, an unpaired last marker gets a
  backslash. \<open>I *really* like it\<close> is unchanged, and in \<open>a*b*c*d\<close> only the third \<open>*\<close>
  is escaped.
\<close>

theorem escape_markup_pairs:
  "escape_md_v2 (Str t) True =
     Str (pair_markers UNDERSCORE (pair_markers STAR (re_sub_escape base_special t)))
   \<and> escape_md_v2 (Str (ascii ''I *really* like it'')) True = Str (ascii ''I *really* like it'')
   \<and> escape_md_v2 (Str (ascii ''a*b*c*d'')) True = Str [97, 42, 98, 42, 99, 92, 42, 100]"
proof -
  have general: "escape_md_v2 (Str u) True =
      Str (pair_markers UNDERSCORE (pair_markers STAR (re_sub_escape base_special u)))" for u
    by (simp add: escape_md_v2_def preserve_pairs_spec)
  have "pair_markers UNDERSCORE (pair_markers STAR
          (re_sub_escape base_special (ascii ''I *really* like it''))) = ascii ''I *really* like it''"
    by code_simp
  moreover have "pair_markers UNDERSCORE (pair_markers STAR
          (re_sub_escape base_special (ascii ''a*b*c*d''))) = [97, 42, 98, 42, 99, 92, 42, 100]"
    by code_simp
  ultimately show ?thesis by (simp only: general simp_thms)
qed

section \<open>Properties of normalize\_label\<close>

lemma normalize_label_prep: "normalize_label lower (Some t) = lower (prep t)"
  by (simp add: normalize_label_def prep_def)

lemma single_spaced_Cons:
  "single_spaced (c # xs) \<longleftrightarrow>
     (is_space c \<longrightarrow> c = 32 \<and> (xs = [] \<or> \<not> is_space (hd xs))) \<and> single_spaced xs"
  by (cases xs) auto

lemma single_spaced_space: "single_spaced xs \<Longrightarrow> c \<in> set xs \<Longrightarrow> is_space c \<Longrightarrow> c = 32"
  by (induction xs) (auto simp: single_spaced_Cons)

lemma single_spaced_append:
  "single_spaced (xs @ ys) \<Longrightarrow> single_spaced xs \<and> single_spaced ys"
  by (induction xs) (auto simp: single_spaced_Cons)

lemma collapse_ws_Nil_iff: "collapse_ws xs = [] \<longleftrightarrow> xs = []"
  by (cases xs) auto

lemma hd_collapse_ws: "xs \<noteq> [] \<Longrightarrow> \<not> is_space (hd xs) \<Longrightarrow> hd (collapse_ws xs) = hd xs"
  by (cases xs) auto

lemma dropWhile_start: "dropWhile P xs = y # ys \<Longrightarrow> \<not> P y"
  by (metis hd_dropWhile list.sel(1) list.distinct(1))

lemma single_spaced_collapse: "single_spaced (collapse_ws s)"
proof (induction s rule: collapse_ws.induct)
  case 1
  show ?case by simp
next
  case (2 c cs)
  show ?case
  proof (cases "is_space c")
    case True
    show ?thesis
    proof (cases "dropWhile is_space cs")
      case Nil
      with True have "collapse_ws (c # cs) = [32]" by (simp del: dropWhile_eq_Nil_conv)
      then show ?thesis by simp
    next
      case (Cons y ys)
      then have y: "\<not> is_space y" by (rule dropWhile_start)
      from 2 True have "single_spaced (collapse_ws (dropWhile is_space cs))" by simp
      with Cons y True show ?thesis by simp
    qed
  next
    case False
    with 2 show ?thesis by (simp add: single_spaced_Cons)
  qed
qed

lemma set_collapse_ws: "set (collapse_ws s) \<subseteq> insert 32 (set s)"
proof (induction s rule: collapse_ws.induct)
  case 1
  show ?case by simp
next
  case (2 c cs)
  have "set (dropWhile is_space cs) \<subseteq> set cs" by (rule set_dropWhileD [THEN subsetI])
  with 2 show ?case by (cases "is_space c") auto
qed

lemma collapse_ws_id: "single_spaced t \<Longrightarrow> collapse_ws t = t"
proof (induction t rule: collapse_ws.induct)
  case 1
  show ?case by simp
next
  case (2 c cs)
  show ?case
  proof (cases "is_space c")
    case True
    with "2.prems" have c: "c = 32" and cs: "cs = [] \<or> \<not> is_space (hd cs)" "single_spaced cs"
      by (auto simp: single_spaced_Cons)
    from cs(1) have "dropWhile is_space cs = cs" by (cases cs) auto
    with 2 True c cs show ?thesis by simp
  next
    case False
    with 2 show ?thesis by (simp add: single_spaced_Cons)
  qed
qed

lemma py_strip_decomp: "\<exists>a b. s = a @ py_strip s @ b"
proof -
  let ?u = "dropWhile is_space s"
  have "s = takeWhile is_space s @ ?u" by simp
  moreover have "?u = py_strip s @ rev (takeWhile is_space (rev ?u))"
    unfolding py_strip_def by (metis rev_append rev_rev_ident takeWhile_dropWhile_id)
  ultimately show ?thesis by metis
qed

lemma py_strip_ends:
  assumes "py_strip s \<noteq> []"
  shows "\<not> is_space (hd (py_strip s)) \<and> \<not> is_space (last (py_strip s))"
proof -
  let ?u = "dropWhile is_space s"
  let ?v = "dropWhile is_space (rev ?u)"
  have ps: "py_strip s = rev ?v" by (simp add: py_strip_def)
  with assms obtain y ys where v: "?v = y # ys" by (cases ?v) auto
  then have "\<not> is_space y" by (rule dropWhile_start)
  with v ps have l: "\<not> is_space (last (py_strip s))" by simp
  have "rev ?u = takeWhile is_space (rev ?u) @ ?v" by simp
  then have "rev (rev ?u) = rev (takeWhile is_space (rev ?u) @ ?v)" by (rule arg_cong)
  then have u: "?u = py_strip s @ rev (takeWhile is_space (rev ?u))"
    by (simp only: rev_rev_ident rev_append ps)
  with assms obtain z zs where z: "?u = z # zs" by (cases ?u) auto
  then have "\<not> is_space z" by (rule dropWhile_start)
  moreover have "hd ?u = hd (py_strip s)" using u assms by (metis hd_append2)
  ultimately have "\<not> is_space (hd (py_strip s))" using z by simp
  with l show ?thesis by simp
qed

lemma py_strip_id:
  "t = [] \<or> (\<not> is_space (hd t) \<and> \<not> is_space (last t)) \<Longrightarrow> py_strip t = t"
proof (cases t)
  case Nil
  then show ?thesis by (simp add: py_strip_def)
next
  case (Cons c cs)
  assume "t = [] \<or> (\<not> is_space (hd t) \<and> \<not> is_space (last t))"
  with Cons have h: "\<not> is_space c" and l: "\<not> is_space (last t)" by auto
  from h Cons have 1: "dropWhile is_space t = t" by simp
  from Cons have "rev t \<noteq> []" by simp
  with l have "dropWhile is_space (rev t) = rev t"
    by (cases "rev t") (auto simp: last_rev [symmetric] hd_rev)
  with 1 show ?thesis by (simp add: py_strip_def)
qed

lemma replace_no_curly:
  "list_all (\<lambda>c. \<not> is_curly c) (replace_char 8221 34 (replace_char 8220 34
              (replace_char 8216 39 (replace_char 8217 39 (replace_char 160 32 t)))))"
  by (induction t) (auto simp: replace_char_def is_curly_def)

lemma replace_id:
  "list_all (\<lambda>c. \<not> is_curly c \<and> c \<noteq> 160) t \<Longrightarrow>
   replace_char 8221 34 (replace_char 8220 34
              (replace_char 8216 39 (replace_char 8217 39 (replace_char 160 32 t)))) = t"
  by (induction t) (auto simp: replace_char_def is_curly_def)

lemma normal_form_prep: "normal_form (prep s)"
proof -
  let ?r = "replace_char 8221 34 (replace_char 8220 34
              (replace_char 8216 39 (replace_char 8217 39 (replace_char 160 32 s))))"
  obtain a b where ab: "collapse_ws ?r = a @ prep s @ b"
    using py_strip_decomp [of "collapse_ws ?r"] by (auto simp: prep_def)
  have "single_spaced (a @ prep s @ b)" using single_spaced_collapse [of ?r] ab by simp
  then have ss: "single_spaced (prep s)" by (blast dest: single_spaced_append)
  have "set (prep s) \<subseteq> insert 32 (set ?r)"
    using set_collapse_ws [of ?r] ab by auto
  moreover have "\<not> is_curly 32" by (simp add: is_curly_def)
  ultimately have "list_all (\<lambda>c. \<not> is_curly c) (prep s)"
    using replace_no_curly [of s] by (auto simp: list_all_iff)
  with ss py_strip_ends [of "collapse_ws ?r"] show ?thesis
    by (auto simp: normal_form_def prep_def)
qed

lemma prep_id: "normal_form t \<Longrightarrow> prep t = t"
proof -
  assume n: "normal_form t"
  have "is_space 160" "\<not> is_space 160 \<or> (160::nat) \<noteq> 32" by (simp_all add: is_space_def)
  then have "160 \<notin> set t" using n single_spaced_space [of t 160]
    by (auto simp: normal_form_def)
  with n have "list_all (\<lambda>c. \<not> is_curly c \<and> c \<noteq> 160) t"
    by (auto simp: normal_form_def list_all_iff)
  then have "prep t = py_strip (collapse_ws t)" by (simp add: prep_def replace_id)
  also have "\<dots> = py_strip t" using n by (simp add: collapse_ws_id normal_form_def)
  also have "\<dots> = t" using n by (intro py_strip_id) (auto simp: normal_form_def)
  finally show ?thesis .
qed


lemma single_spaced_word: "list_all (\<lambda>c. \<not> is_space c) u \<Longrightarrow> single_spaced u"
  by (induction u) (auto simp: single_spaced_Cons)

lemma single_spaced_join:
  "list_all (\<lambda>c. \<not> is_space c) a \<Longrightarrow> single_spaced b \<Longrightarrow> b \<noteq> [] \<Longrightarrow> \<not> is_space (hd b) \<Longrightarrow>
   single_spaced (a @ 32 # b)"
  by (induction a) (auto simp: single_spaced_Cons)

lemma normal_form_word:
  assumes "list_all word_char u"
  shows "normal_form u"
proof -
  from assms have ns: "list_all (\<lambda>c. \<not> is_space c) u" and nc: "list_all (\<lambda>c. \<not> is_curly c) u"
    by (auto simp: list_all_iff word_char_def)
  have "u \<noteq> [] \<Longrightarrow> \<not> is_space (hd u) \<and> \<not> is_space (last u)"
    using ns by (auto simp: list_all_iff)
  with ns nc show ?thesis by (simp add: normal_form_def single_spaced_word)
qed

lemma normal_form_chars:
  assumes "normal_form t" and "c \<in> set t" and "c \<noteq> 32"
  shows "word_char c"
proof -
  from assms have "\<not> is_curly c" by (auto simp: normal_form_def list_all_iff)
  moreover have "\<not> is_space c"
    using assms single_spaced_space [of t c] by (auto simp: normal_form_def)
  ultimately show ?thesis by (simp add: word_char_def)
qed

lemma normal_form_lower:
  assumes sp: "lower_splits lower" and wd: "lower_words lower"
  shows "normal_form t \<Longrightarrow> normal_form (lower t) \<and> (t \<noteq> [] \<longrightarrow> lower t \<noteq> [])"
proof (induction t rule: length_induct)
  case (1 t)
  note nf = \<open>normal_form t\<close>
  show ?case
  proof (cases "32 \<in> set t")
    case False
    with nf have "list_all word_char t"
      by (auto simp: list_all_iff intro: normal_form_chars)
    with wd have "list_all word_char (lower t)" and "t \<noteq> [] \<longrightarrow> lower t \<noteq> []"
      by (auto simp: lower_words_def)
    then show ?thesis by (simp add: normal_form_word)
  next
    case True
    then obtain w rest where t: "t = w @ 32 # rest" and w32: "32 \<notin> set w"
      by (auto dest: split_list_first)
    have sp32: "is_space 32" by (simp add: is_space_def)
    have w_ne: "w \<noteq> []"
    proof
      assume "w = []"
      with t nf sp32 show False by (simp add: normal_form_def)
    qed
    have rest_ne: "rest \<noteq> []"
    proof
      assume "rest = []"
      with t nf sp32 show False by (simp add: normal_form_def)
    qed
    have w_word: "list_all word_char w"
      using nf t w32 by (auto simp: list_all_iff intro!: normal_form_chars [of t])
    from nf t have "single_spaced (w @ 32 # rest)" by (simp add: normal_form_def)
    then have "single_spaced (32 # rest)" by (blast dest: single_spaced_append)
    with sp32 rest_ne have ss_rest: "single_spaced rest" and hd_rest: "\<not> is_space (hd rest)"
      by (auto simp: single_spaced_Cons)
    have "last t = last rest" using t rest_ne by simp
    with nf t have last_rest: "\<not> is_space (last rest)" by (simp add: normal_form_def)
    from nf t have "list_all (\<lambda>c. \<not> is_curly c) rest" by (simp add: normal_form_def)
    with ss_rest hd_rest last_rest have nf_rest: "normal_form rest"
      by (simp add: normal_form_def)
    have "length rest < length t" using t by simp
    with 1 nf_rest rest_ne have nf_lr: "normal_form (lower rest)" and lr_ne: "lower rest \<noteq> []"
      by auto
    from wd w_word w_ne have lw: "list_all word_char (lower w)" and lw_ne: "lower w \<noteq> []"
      by (auto simp: lower_words_def)
    from sp t have lt: "lower t = lower w @ 32 # lower rest" by (simp add: lower_splits_def)
    from lw have lw_ns: "list_all (\<lambda>c. \<not> is_space c) (lower w)"
      and lw_nc: "list_all (\<lambda>c. \<not> is_curly c) (lower w)"
      by (auto simp: list_all_iff word_char_def)
    from nf_lr lr_ne have "single_spaced (lower rest)" "\<not> is_space (hd (lower rest))"
      "\<not> is_space (last (lower rest))" "list_all (\<lambda>c. \<not> is_curly c) (lower rest)"
      by (auto simp: normal_form_def)
    moreover have "\<not> is_space (hd (lower w))" using lw_ns lw_ne by (auto simp: list_all_iff)
    moreover have "\<not> is_curly 32" by (simp add: is_curly_def)
    ultimately have "normal_form (lower w @ 32 # lower rest)"
      using lw_ns lw_nc lw_ne lr_ne
      by (simp add: normal_form_def single_spaced_join)
    with lt show ?thesis by simp
  qed
qed

lemma small_letters_word: "(97 \<le> d \<and> d \<le> 122) \<or> (1072 \<le> d \<and> d \<le> 1119) \<Longrightarrow> word_char d"
  unfolding word_char_def is_space_def is_curly_def by linarith

lemma lower_basic_cp_range:
  "lower_basic_cp c = c \<or> (97 \<le> lower_basic_cp c \<and> lower_basic_cp c \<le> 122) \<or>
   (1072 \<le> lower_basic_cp c \<and> lower_basic_cp c \<le> 1119)"
  unfolding lower_basic_cp_def by simp

lemma lower_basic_cp_word: "word_char c \<Longrightarrow> word_char (lower_basic_cp c)"
  using lower_basic_cp_range [of c] small_letters_word [of "lower_basic_cp c"] by auto

lemma lower_basic_cp_idem: "lower_basic_cp (lower_basic_cp c) = lower_basic_cp c"
  unfolding lower_basic_cp_def by simp

lemma lower_basic_idem: "lower_idem lower_basic"
  by (simp add: lower_idem_def lower_basic_def lower_basic_cp_idem)

lemma lower_basic_splits: "lower_splits lower_basic"
  by (simp add: lower_splits_def lower_basic_def lower_basic_cp_def)

lemma lower_basic_words: "lower_words lower_basic"
  by (simp add: lower_words_def lower_basic_def list_all_iff lower_basic_cp_word)



text \<open>
  C7. \<open>normalize_label\<close> is idempotent on strings: the replacements, the collapsing of
  whitespace and the trimming leave a text in normal form, the lower-casing keeps it in
  normal form, and a text in normal form passes the first steps unchanged. The three facts
  about \<open>str.lower\<close> are the ones stated with \<open>lower_idem\<close>, \<open>lower_splits\<close> and
  \<open>lower_words\<close>.
\<close>

theorem normalize_label_idempotent:
  assumes "lower_idem lower" and "lower_splits lower" and "lower_words lower"
  shows "normalize_label lower (Some (normalize_label lower (Some x))) =
         normalize_label lower (Some x)"
proof -
  have "normal_form (lower (prep x))"
    using normal_form_lower [OF assms(2,3) normal_form_prep [of x]] by simp
  then have "prep (lower (prep x)) = lower (prep x)" by (rule prep_id)
  with assms(1) show ?thesis by (simp add: normalize_label_prep lower_idem_def)
qed

text \<open>
  An example: a space, a non-breaking space, \<open>He  SAID\<close>, then the Cyrillic word
  of the payment trigger in mixed case between curly double quotes, a tab and a newline.
  The result is \<open>he said\<close> followed by the lower-case word in straight quotes, and
  normalizing that again gives the same.
\<close>

theorem normalize_label_idempotent_witness:
  "normalize_label lower_basic (Some ([32, 160] @ ascii ''He  SAID'' @
       [8220, 1054, 1087, 1083, 1040, 1090, 1080, 1083, 8221, 9, 10]))
     = [104, 101, 32, 115, 97, 105, 100, 34, 1086, 1087, 1083, 1072, 1090, 1080, 1083, 34] \<and>
   normalize_label lower_basic
       (Some [104, 101, 32, 115, 97, 105, 100, 34, 1086, 1087, 1083, 1072, 1090, 1080, 1083, 34])
     = [104, 101, 32, 115, 97, 105, 100, 34, 1086, 1087, 1083, 1072, 1090, 1080, 1083, 34]"
proof -
  let ?x = "[32, 160] @ ascii ''He  SAID'' @
       [8220, 1054, 1087, 1083, 1040, 1090, 1080, 1083, 8221, 9, 10]"
  have v: "normalize_label lower_basic (Some ?x)
    = [104, 101, 32, 115, 97, 105, 100, 34, 1086, 1087, 1083, 1072, 1090, 1080, 1083, 34]"
    by (simp add: normalize_label_def replace_char_def is_space_def py_strip_def lower_basic_def
          lower_basic_cp_def ascii_def)
  from normalize_label_idempotent
         [OF lower_basic_idem lower_basic_splits lower_basic_words, of ?x]
  have "normalize_label lower_basic (Some (normalize_label lower_basic (Some ?x)))
         = normalize_label lower_basic (Some ?x)" .
  with v show ?thesis by (simp only: simp_thms)
qed

section \<open>Properties of the handlers\<close>

subsection \<open>Decimal rendering\<close>

declare digits_of.simps [simp del]

lemma digits_value_snoc: "digits_value (ds @ [d]) = 10 * digits_value ds + (d - 48)"
  by (simp add: digits_value_def)

lemma digits_value_digits_of: "digits_value (digits_of n) = n"
proof (induction n rule: digits_of.induct)
  case (1 n)
  show ?case
  proof (cases "n < 10")
    case True
    then show ?thesis by (simp add: digits_of.simps [of n] digits_value_def)
  next
    case False
    with 1 show ?thesis by (simp add: digits_of.simps [of n] digits_value_snoc)
  qed
qed

lemma digits_of_inj: "digits_of a = digits_of b \<Longrightarrow> a = b"
  by (metis digits_value_digits_of)

lemma digits_of_chars: "d \<in> set (digits_of n) \<Longrightarrow> 48 \<le> d"
proof (induction n rule: digits_of.induct)
  case (1 n)
  then show ?case by (cases "n < 10") (auto simp: digits_of.simps [of n])
qed

lemma digits_of_nonempty: "digits_of n \<noteq> []"
  by (cases "n < 10") (simp_all add: digits_of.simps [of n])

lemma str_int_nonempty: "str_int i \<noteq> []"
  by (simp add: str_int_def digits_of_nonempty)

lemma digits_of_no_minus: "digits_of n \<noteq> 45 # ds"
  using digits_of_chars [of 45 n] by auto

lemma str_int_inj: "str_int i = str_int j \<longleftrightarrow> i = j"
proof
  assume eq: "str_int i = str_int j"
  show "i = j"
  proof (cases "i < 0"; cases "j < 0")
    assume "i < 0" "j < 0"
    with eq have "nat (- i) = nat (- j)" by (auto simp: str_int_def dest: digits_of_inj)
    with \<open>i < 0\<close> \<open>j < 0\<close> show ?thesis by simp
  next
    assume "i < 0" "\<not> j < 0"
    with eq have "digits_of (nat j) = 45 # digits_of (nat (- i))" by (simp add: str_int_def)
    with digits_of_no_minus show ?thesis by blast
  next
    assume "\<not> i < 0" "j < 0"
    with eq have "digits_of (nat i) = 45 # digits_of (nat (- j))" by (simp add: str_int_def)
    with digits_of_no_minus show ?thesis by blast
  next
    assume "\<not> i < 0" "\<not> j < 0"
    with eq have "nat i = nat j" by (auto simp: str_int_def dest: digits_of_inj)
    with \<open>\<not> i < 0\<close> \<open>\<not> j < 0\<close> show ?thesis by simp
  qed
qed simp

subsection \<open>The answer index\<close>

lemma map_of_fold_update_None:
  "map_of (fold (\<lambda>x acc. AList.update (kf x) (vf x) acc) xs acc) k = None \<longleftrightarrow>
     map_of acc k = None \<and> (\<forall>x \<in> set xs. kf x \<noteq> k)"
  by (induction xs arbitrary: acc) (auto simp: update_conv')

lemma make_action_map_miss:
  "map_of (make_action_map lower answers) k = None \<longleftrightarrow>
     (\<forall>ans \<in> set answers. normalize_label lower (Some (label ans)) \<noteq> k)"
  unfolding make_action_map_def by (simp add: map_of_fold_update_None)

subsection \<open>The broadcast loop\<close>

lemma broadcast_loop_result:
  "broadcast_loop e payload us sent r =
     (sent + length (filter (\<lambda>u. delivers e (broadcast_call payload u)) us),
      r\<lparr>outbox := outbox r @ map (broadcast_call payload)
                              (filter (\<lambda>u. delivers e (broadcast_call payload u)) us),
        logged := logged r @ map BroadcastFailed
                              (filter (\<lambda>u. \<not> delivers e (broadcast_call payload u)) us)\<rparr>)"
  by (induction us arbitrary: sent r)
    (simp_all add: Let_def emit_def write_log_def broadcast_call_def)

lemma count_delivered:
  assumes "finite U"
  shows "length (filter P (sorted_list_of_set U)) = card U - card {u \<in> U. \<not> P u}"
proof -
  have "length (filter P (sorted_list_of_set U)) = card {u \<in> U. P u}"
    using assms by (simp add: distinct_length_filter Int_def conj_commute)
  moreover have "card ({u \<in> U. P u} \<union> {u \<in> U. \<not> P u}) = card {u \<in> U. P u} + card {u \<in> U. \<not> P u}"
    using assms by (intro card_Un_disjoint) auto
  moreover have "{u \<in> U. P u} \<union> {u \<in> U. \<not> P u} = U" by auto
  ultimately show ?thesis by simp
qed

subsection \<open>Effects of the basic operations\<close>

lemma sess_emit [simp]: "sess (emit c r) = sess r"
  and raised_emit [simp]: "raised (emit c r) = raised r"
  and outbox_emit [simp]: "outbox (emit c r) = outbox r @ [c]"
  and logged_emit [simp]: "logged (emit c r) = logged r"
  and users_emit [simp]: "users_json (emit c r) = users_json r"
  by (simp_all add: emit_def)

lemma sess_write_log [simp]: "sess (write_log x r) = sess r"
  and raised_write_log [simp]: "raised (write_log x r) = raised r"
  and outbox_write_log [simp]: "outbox (write_log x r) = outbox r"
  and logged_write_log [simp]: "logged (write_log x r) = logged r @ [x]"
  and users_write_log [simp]: "users_json (write_log x r) = users_json r"
  by (simp_all add: write_log_def)


lemma receipt_doneI:
  "receipt_done r calls (clear_pending (get_meta (sess r)) (r\<lparr>outbox := outbox r @ calls\<rparr>))"
  by (simp add: receipt_done_def clear_pending_def get_meta_def)

lemma on_msg_receipt_admin:
  assumes "photo m \<or> document m" and "get_meta (sess r) ''pending_payment'' = Some p"
    and "admin_configured e = Some a"
  shows "on_msg fm e ml m r = forward_receipt e m a p (clear_pending (get_meta (sess r))) r"
  using assms by (auto simp: on_msg_def Let_def)

lemma on_msg_receipt_no_admin:
  assumes "photo m \<or> document m" and "get_meta (sess r) ''pending_payment'' = Some p"
    and "admin_configured e = None"
  shows "on_msg fm e ml m r =
           unguarded e (receipt_no_admin e) (clear_pending (get_meta (sess r))) r"
  using assms by (auto simp: on_msg_def Let_def)

lemma emit_outbox: "emit c r = r\<lparr>outbox := outbox r @ [c]\<rparr>"
  by (simp add: emit_def)

lemma on_msg_unmatched:
  assumes "\<not> takes_receipt_path m r" and "map_of ml (normalized_text e m) = None"
  shows "on_msg fm e ml m r =
           emit (Answer (escape_md_v2 (system_text e ''use_buttons'') False) None (Some MARKDOWN_V2))
             (write_log (UnmatchedReply (from_user_id m) (s_step (sess r))
                           (take 200 (text_or_empty m)) (take 200 (normalized_text e m))
                           (map (\<lambda>kv. orig (snd kv)) ml)) r)"
  using assms
  by (auto simp: on_msg_def Let_def takes_receipt_path_def normalized_text_def split: option.splits)

lemma on_msg_paid:
  assumes "\<not> takes_receipt_path m r" and "map_of ml (normalized_text e m) = Some entry"
    and "prefix PAID_TRIGGER (str_lower e (normalized_text e m))"
  shows "on_msg fm e ml m r =
           emit (Answer (escape_md_v2 (system_text e ''send_receipt_instr'') False)
                   (Some ReplyKeyboardRemove) (Some MARKDOWN_V2))
             (r\<lparr>sess := (sess r)\<lparr>s_meta := Some ((get_meta (sess r))(''pending_payment'' \<mapsto>
                  \<lparr>p_order_tag = str_int (time_seconds e), p_method = normalized_text e m\<rparr>))\<rparr>\<rparr>)"
  using assms
  by (auto simp: on_msg_def Let_def takes_receipt_path_def normalized_text_def split: option.splits)


text \<open>\<open>handle_message\<close> hands a message to the handler of the current step.\<close>

lemma handle_message_delegates:
  assumes "s_step (sess r) = Some sid" and "sid \<noteq> []"
    and "get_step fm sid = Some st" and "on_message st = Some map_local"
  shows "handle_message fm e m r = on_msg fm e map_local m r"
  using assms by (simp add: handle_message_def)

subsection \<open>Evaluating the example\<close>



lemmas eval_normalize = normalize_label_def replace_char_def is_space_def py_strip_def
  lower_basic_def lower_basic_cp_def

lemma example_map_value:
  "example_map =
     [([1076, 1072], \<lparr>orig = [1044, 1072], entry_action = goto ''2''\<rparr>),
      (paid_normalized,
       \<lparr>orig = [1054, 1087, 1083, 1072, 1090, 1080, 1083, 32, 1082, 1072, 1088, 1090, 1086, 1081],
        entry_action = goto ''9''\<rparr>)]"
  by (simp add: example_map_def make_action_map_def example_answers_def paid_normalized_def
        eval_normalize)

lemma paid_message_normalized:
  "normalized_text (example_env now ok) (paid_message uid) = paid_normalized"
  by (simp add: normalized_text_def example_env_def paid_message_def text_message_def
        text_or_empty_def paid_normalized_def eval_normalize)

lemma cash_message_normalized:
  "normalized_text (example_env now ok) (cash_message uid) = PAID_TRIGGER @ ascii '' cash''"
  by (simp add: normalized_text_def example_env_def cash_message_def text_message_def
        text_or_empty_def PAID_TRIGGER_def ascii_def eval_normalize)

lemma text_message_no_receipt: "\<not> takes_receipt_path (text_message uid t) r"
  by (simp add: takes_receipt_path_def text_message_def)

lemma lower_normalized:
  "lower_idem (str_lower e) \<Longrightarrow> str_lower e (normalized_text e m) = normalized_text e m"
  by (simp add: normalized_text_def normalize_label_prep lower_idem_def)

lemma admin_example: "admin_configured (example_env now ok) = Some 1000"
  by (simp add: admin_configured_def example_env_def)

lemma receipt_failed_example:
  "receipt_failed (example_env now ok) =
     Answer (Str (ascii ''Receipt not sent'')) None (Some MARKDOWN_V2)"
  by (simp add: receipt_failed_def system_text_def example_env_def example_texts_def
        escape_md_v2_def ascii_def base_special_def marker_class_def STAR_def UNDERSCORE_def)

lemma photo_message_fields:
  "photo (photo_message uid)" "chat_id (photo_message uid) = uid"
  "message_id (photo_message uid) = 2"
  by (simp_all add: photo_message_def)

lemma example_run_pending:
  "get_meta (sess (example_run pending_meta)) ''pending_payment'' = Some example_pending"
  by (simp add: get_meta_def example_run_def pending_meta_def)

lemma example_run_fields:
  "outbox (example_run mt) = []" "logged (example_run mt) = []" "raised (example_run mt) = None"
  "users_json (example_run mt) = [3, 5, 8]"
  by (simp_all add: example_run_def)

lemma admin_command_request: "immediate_request (example_env now ok) admin_command"
  and admin_command_payload: "immediate_payload admin_command = ascii ''hi''"
  by (simp_all add: immediate_request_def immediate_payload_def admin_command_def
        text_message_def text_or_empty_def example_env_def ascii_def py_strip_def
        after_first_space_def is_space_def)

lemma example_users: "load_users (example_run mt) = {3, 5, 8}"
  by (simp add: load_users_def example_run_def)

lemma example_sorted: "sorted_list_of_set {3, 5, 8 :: int} = [3, 5, 8]"
  by simp

lemma digit_2: "str_int 2 = ascii ''2''" and digit_3: "str_int 3 = ascii ''3''"
  by (simp_all add: str_int_def digits_of.simps ascii_def)

subsection \<open>Starting a step\<close>



subsection \<open>The receipt path\<close>

text \<open>
  C2, as amended. For a message with a photo or a document while \<open>pending_payment\<close> is
  set, the handler removes \<open>pending_payment\<close> from the session, changes nothing else
  in it and raises nothing, whenever its closing notice to the user is delivered, both
  when the forward to the admin succeeds and when it fails. With an admin configured: if
  forward, control message and acknowledgement are delivered, these three are the calls;
  if one of them is not delivered, the calls are those delivered before it and then the
  failure notice in place of the acknowledgement. Without an admin the call is the
  "no admin" notice.
\<close>

theorem receipt_clears_pending:
  assumes "photo m \<or> document m" and "get_meta (sess r) ''pending_payment'' = Some p"
  shows
   "(admin_configured e = Some a \<longrightarrow>
       (delivers e (ForwardMessage a (chat_id m) (message_id m)) \<and>
        delivers e (receipt_note m a p) \<and> delivers e (receipt_ack e) \<longrightarrow>
          receipt_done r [ForwardMessage a (chat_id m) (message_id m), receipt_note m a p,
                          receipt_ack e] (on_msg fm e ml m r))
     \<and> (\<not> delivers e (ForwardMessage a (chat_id m) (message_id m)) \<and>
        delivers e (receipt_failed e) \<longrightarrow>
          receipt_done r [receipt_failed e] (on_msg fm e ml m r))
     \<and> (delivers e (ForwardMessage a (chat_id m) (message_id m)) \<and>
        \<not> delivers e (receipt_note m a p) \<and> delivers e (receipt_failed e) \<longrightarrow>
          receipt_done r [ForwardMessage a (chat_id m) (message_id m), receipt_failed e]
            (on_msg fm e ml m r))
     \<and> (delivers e (ForwardMessage a (chat_id m) (message_id m)) \<and>
        delivers e (receipt_note m a p) \<and> \<not> delivers e (receipt_ack e) \<and>
        delivers e (receipt_failed e) \<longrightarrow>
          receipt_done r [ForwardMessage a (chat_id m) (message_id m), receipt_note m a p,
                          receipt_failed e] (on_msg fm e ml m r)))
    \<and> (admin_configured e = None \<and> delivers e (receipt_no_admin e) \<longrightarrow>
          receipt_done r [receipt_no_admin e] (on_msg fm e ml m r))"
proof -
  have admin: "on_msg fm e ml m r = forward_receipt e m a p (clear_pending (get_meta (sess r))) r"
    if "admin_configured e = Some a"
    using on_msg_receipt_admin [OF assms that] .
  have none: "on_msg fm e ml m r =
      unguarded e (receipt_no_admin e) (clear_pending (get_meta (sess r))) r"
    if "admin_configured e = None"
    using on_msg_receipt_no_admin [OF assms that] .
  show ?thesis
    using receipt_doneI [of r]
    by (auto simp: admin none forward_receipt_def guarded_def unguarded_def Let_def emit_outbox)
qed

text \<open>The forward fails and the failure notice is delivered: the mark is removed.\<close>

theorem receipt_clears_pending_witness:
  "get_meta (sess (on_msg example_flow (example_env 1700000100 only_answers) []
                     (photo_message 7) (example_run pending_meta))) ''pending_payment'' = None \<and>
   outbox (on_msg example_flow (example_env 1700000100 only_answers) []
             (photo_message 7) (example_run pending_meta)) =
     [Answer (Str (ascii ''Receipt not sent'')) None (Some MARKDOWN_V2)] \<and>
   raised (on_msg example_flow (example_env 1700000100 only_answers) []
             (photo_message 7) (example_run pending_meta)) = None"
proof -
  let ?e = "example_env 1700000100 only_answers"
  let ?m = "photo_message 7"
  let ?r = "example_run pending_meta"
  have ph: "photo ?m \<or> document ?m" by (simp add: photo_message_fields)
  have adm: "admin_configured ?e = Some 1000" by (rule admin_example)
  have nd: "\<not> delivers ?e (ForwardMessage 1000 (chat_id ?m) (message_id ?m))"
    by (simp add: example_env_def only_answers_def)
  have dl: "delivers ?e (receipt_failed ?e)"
    by (simp add: receipt_failed_example) (simp add: example_env_def only_answers_def)
  from receipt_clears_pending [OF ph example_run_pending, of ?e 1000 example_flow "[]"] adm nd dl
  have "receipt_done ?r [receipt_failed ?e] (on_msg example_flow ?e [] ?m ?r)" by blast
  then have "get_meta (sess (on_msg example_flow ?e [] ?m ?r)) ''pending_payment'' = None"
    and "outbox (on_msg example_flow ?e [] ?m ?r) = outbox ?r @ [receipt_failed ?e]"
    and "raised (on_msg example_flow ?e [] ?m ?r) = raised ?r"
    unfolding receipt_done_def by blast+
  then show ?thesis
    by (simp only: receipt_failed_example example_run_fields append_Nil simp_thms)
qed

text \<open>
  The failure notice and the "no admin" notice are sent outside any \<open>try\<close>, before the
  mark is removed: when the notice is not delivered, its exception leaves the handler and
  the session is as before.
\<close>

lemma receipt_notice_lost:
  assumes "photo m \<or> document m" and "get_meta (sess r) ''pending_payment'' = Some p"
    and "\<not> delivers e (receipt_failed e)"
  shows "admin_configured e = Some a \<Longrightarrow>
           \<not> delivers e (ForwardMessage a (chat_id m) (message_id m)) \<Longrightarrow>
           on_msg fm e ml m r = r\<lparr>raised := Some TransportError\<rparr>"
  using assms
  by (simp add: on_msg_receipt_admin forward_receipt_def guarded_def unguarded_def Let_def)

lemma receipt_notice_undelivered:
  assumes "photo m \<or> document m" and "get_meta (sess r) ''pending_payment'' = Some p"
    and "(admin_configured e = Some a \<and> \<not> delivers e (receipt_failed e) \<and>
          \<not> (delivers e (ForwardMessage a (chat_id m) (message_id m)) \<and>
             delivers e (receipt_note m a p) \<and> delivers e (receipt_ack e)))
         \<or> (admin_configured e = None \<and> \<not> delivers e (receipt_no_admin e))"
  shows "sess (on_msg fm e ml m r) = sess r \<and> raised (on_msg fm e ml m r) = Some TransportError"
proof (cases "admin_configured e")
  case None
  with assms show ?thesis
    by (simp add: on_msg_receipt_no_admin unguarded_def)
next
  case (Some b)
  with assms show ?thesis
    by (auto simp: on_msg_receipt_admin forward_receipt_def guarded_def unguarded_def Let_def)
qed

text \<open>
  C2 as stated fails: with the transport down, the forward is not delivered and neither is
  the failure notice; \<open>pending_payment\<close> stays set and the user gets no notice.
\<close>

theorem receipt_notice_lost_counterexample:
  "photo (photo_message 7) \<and>
   get_meta (sess (example_run pending_meta)) ''pending_payment'' = Some example_pending \<and>
   get_meta (sess (on_msg example_flow (example_env 1700000100 never_delivers) []
                     (photo_message 7) (example_run pending_meta))) ''pending_payment''
     = Some example_pending \<and>
   outbox (on_msg example_flow (example_env 1700000100 never_delivers) []
             (photo_message 7) (example_run pending_meta)) = [] \<and>
   raised (on_msg example_flow (example_env 1700000100 never_delivers) []
             (photo_message 7) (example_run pending_meta)) = Some TransportError"
proof -
  let ?e = "example_env 1700000100 never_delivers"
  let ?m = "photo_message 7"
  let ?r = "example_run pending_meta"
  have ph: "photo ?m \<or> document ?m" by (simp add: photo_message_fields)
  have adm: "admin_configured ?e = Some 1000" by (rule admin_example)
  have nd: "\<not> delivers ?e (ForwardMessage 1000 (chat_id ?m) (message_id ?m))"
    by (simp add: example_env_def never_delivers_def)
  have nf: "\<not> delivers ?e (receipt_failed ?e)"
    by (simp add: example_env_def never_delivers_def)
  have "on_msg example_flow ?e [] ?m ?r = ?r\<lparr>raised := Some TransportError\<rparr>"
    by (rule receipt_notice_lost [OF ph example_run_pending nf adm nd])
  then show ?thesis
    by (simp add: example_run_pending example_run_fields photo_message_fields)
qed

subsection \<open>The payment trigger\<close>

text \<open>
  C1, as amended. For a message that is not a receipt for a pending payment, whose
  normalized text is a key of the answer index of the step and begins with the trigger
  word: the handler stores \<open>pending_payment\<close> with the decimal clock reading as order tag
  and the normalized text as method, sends the receipt instruction with the keyboard
  removed, and does nothing else, whatever the action of the matched answer is. (The source
  tests the lower-cased normalized text, which is the normalized text for an idempotent
  lower-casing.)
\<close>

theorem payment_intent_on_matched_label:
  assumes "lower_idem (str_lower e)"
    and "\<not> takes_receipt_path m r"
    and "map_of map_local (normalized_text e m) = Some act_entry"
    and "prefix PAID_TRIGGER (normalized_text e m)"
  shows "on_msg fm e map_local m r =
           emit (Answer (escape_md_v2 (system_text e ''send_receipt_instr'') False)
                   (Some ReplyKeyboardRemove) (Some MARKDOWN_V2))
             (r\<lparr>sess := (sess r)\<lparr>s_meta := Some ((get_meta (sess r))(''pending_payment'' \<mapsto>
                  \<lparr>p_order_tag = str_int (time_seconds e), p_method = normalized_text e m\<rparr>))\<rparr>\<rparr>)"
  using assms by (intro on_msg_paid) (simp_all add: lower_normalized)

lemma prefix_paid: "prefix PAID_TRIGGER paid_normalized"
  by (simp add: PAID_TRIGGER_def paid_normalized_def)

theorem payment_intent_on_matched_label_witness:
  "lower_idem (str_lower (example_env 1700000000 always_delivers)) \<and>
   \<not> takes_receipt_path (paid_message 7) (example_run no_meta) \<and>
   map_of example_map (normalized_text (example_env 1700000000 always_delivers) (paid_message 7))
     = Some \<lparr>orig = [1054, 1087, 1083, 1072, 1090, 1080, 1083, 32, 1082, 1072, 1088, 1090, 1086, 1081],
             entry_action = goto ''9''\<rparr> \<and>
   prefix PAID_TRIGGER (normalized_text (example_env 1700000000 always_delivers) (paid_message 7)) \<and>
   stored_order_tag (on_msg example_flow (example_env 1700000000 always_delivers) example_map
                       (paid_message 7) (example_run no_meta)) = Some (ascii ''1700000000'') \<and>
   outbox (on_msg example_flow (example_env 1700000000 always_delivers) example_map
             (paid_message 7) (example_run no_meta)) =
     [Answer (Str (ascii ''Send your receipt'')) (Some ReplyKeyboardRemove) (Some MARKDOWN_V2)] \<and>
   s_step (sess (on_msg example_flow (example_env 1700000000 always_delivers) example_map
             (paid_message 7) (example_run no_meta))) = Some (ascii ''1'')"
proof -
  let ?e = "example_env 1700000000 always_delivers"
  let ?m = "paid_message 7"
  let ?r = "example_run no_meta"
  let ?en = "\<lparr>orig = [1054, 1087, 1083, 1072, 1090, 1080, 1083, 32, 1082, 1072, 1088, 1090, 1086, 1081],
             entry_action = goto ''9''\<rparr>"
  have h1: "lower_idem (str_lower ?e)" by (simp add: example_env_def lower_basic_idem)
  have h2: "\<not> takes_receipt_path ?m ?r" by (simp add: paid_message_def text_message_no_receipt)
  have h3: "map_of example_map (normalized_text ?e ?m) = Some ?en"
    by (simp add: paid_message_normalized example_map_value paid_normalized_def)
  have h4: "prefix PAID_TRIGGER (normalized_text ?e ?m)"
    by (simp add: paid_message_normalized prefix_paid)
  have tag: "str_int (time_seconds ?e) = ascii ''1700000000''"
    by (simp add: example_env_def str_int_def digits_of.simps ascii_def)
  have msg: "escape_md_v2 (system_text ?e ''send_receipt_instr'') False = Str (ascii ''Send your receipt'')"
    by (simp add: system_text_def example_env_def example_texts_def
          escape_md_v2_def ascii_def base_special_def marker_class_def STAR_def UNDERSCORE_def)
  note th = payment_intent_on_matched_label [OF h1 h2 h3 h4, of example_flow]
  have c1: "stored_order_tag (on_msg example_flow ?e example_map ?m ?r) = Some (ascii ''1700000000'')"
    unfolding th by (simp add: stored_order_tag_def get_meta_def tag)
  have c2: "outbox (on_msg example_flow ?e example_map ?m ?r) =
     [Answer (Str (ascii ''Send your receipt'')) (Some ReplyKeyboardRemove) (Some MARKDOWN_V2)]"
    unfolding th by (simp add: msg example_run_def)
  have c3: "s_step (sess (on_msg example_flow ?e example_map ?m ?r)) = Some (ascii ''1'')"
    unfolding th by (simp add: example_run_def)
  from h1 h2 h3 h4 c1 c2 c3 show ?thesis by (intro conjI)
qed

text \<open>
  C1 as stated fails: the text "<trigger word> cash" begins with the trigger word but is
  no label of step 1, so the lookup misses first; \<open>pending_payment\<close> is not set and the
  user gets the fallback notice.
\<close>

theorem payment_intent_unmatched_counterexample:
  "prefix PAID_TRIGGER (normalized_text (example_env 1700000000 always_delivers) (cash_message 7)) \<and>
   \<not> takes_receipt_path (cash_message 7) (example_run no_meta) \<and>
   stored_order_tag (on_msg example_flow (example_env 1700000000 always_delivers) example_map
                       (cash_message 7) (example_run no_meta)) = None \<and>
   outbox (on_msg example_flow (example_env 1700000000 always_delivers) example_map
             (cash_message 7) (example_run no_meta)) =
     [Answer (Str (ascii ''Use the buttons'')) None (Some MARKDOWN_V2)]"
proof -
  let ?e = "example_env 1700000000 always_delivers"
  let ?m = "cash_message 7"
  let ?r = "example_run no_meta"
  have h1: "prefix PAID_TRIGGER (normalized_text ?e ?m)"
    by (simp add: cash_message_normalized)
  have h2: "\<not> takes_receipt_path ?m ?r" by (simp add: cash_message_def text_message_no_receipt)
  have miss: "map_of example_map (normalized_text ?e ?m) = None"
    by (simp add: cash_message_normalized example_map_value paid_normalized_def PAID_TRIGGER_def
          ascii_def)
  have msg: "escape_md_v2 (system_text ?e ''use_buttons'') False = Str (ascii ''Use the buttons'')"
    by (simp add: system_text_def example_env_def example_texts_def
          escape_md_v2_def ascii_def base_special_def marker_class_def STAR_def UNDERSCORE_def)
  note th = on_msg_unmatched [OF h2 miss, of example_flow]
  have c1: "stored_order_tag (on_msg example_flow ?e example_map ?m ?r) = None"
    unfolding th by (simp add: stored_order_tag_def get_meta_def example_run_def no_meta_def)
  have c2: "outbox (on_msg example_flow ?e example_map ?m ?r) =
     [Answer (Str (ascii ''Use the buttons'')) None (Some MARKDOWN_V2)]"
    unfolding th by (simp add: msg example_run_def)
  from h1 h2 c1 c2 show ?thesis by (intro conjI)
qed

subsection \<open>An unmatched reply\<close>

lemma build_step_handler:
  "on_message (build_step lower sid info) = Some map_local \<Longrightarrow>
     info_answers info \<noteq> [] \<and> map_local = make_action_map lower (info_answers info)"
  by (auto simp: build_step_def Let_def split: if_splits)

lemma update_entries: "set (AList.update k v al) \<subseteq> insert (k, v) (set al)"
  by (induction al) auto

lemma fold_update_entries:
  "(k, v) \<in> set (fold (\<lambda>x acc. AList.update (kf x) (vf x) acc) xs acc) \<Longrightarrow>
     (k, v) \<in> set acc \<or> (\<exists>x \<in> set xs. k = kf x \<and> v = vf x)"
proof (induction xs arbitrary: acc)
  case Nil
  then show ?case by simp
next
  case (Cons x xs)
  from Cons.IH [of "AList.update (kf x) (vf x) acc"] Cons.prems
  have "(k, v) \<in> set (AList.update (kf x) (vf x) acc) \<or> (\<exists>y \<in> set xs. k = kf y \<and> v = vf y)"
    by simp
  with update_entries [of "kf x" "vf x" acc] show ?case by auto
qed

lemma make_action_map_labels:
  "set (map (\<lambda>kv. orig (snd kv)) (make_action_map lower answers)) \<subseteq> label ` set answers"
proof
  fix l
  assume "l \<in> set (map (\<lambda>kv. orig (snd kv)) (make_action_map lower answers))"
  then obtain k v where kv: "(k, v) \<in> set (make_action_map lower answers)" and l: "l = orig v"
    by auto
  from fold_update_entries [OF kv [unfolded make_action_map_def]]
  obtain ans where "ans \<in> set answers" "orig v = label ans" by auto
  with l show "l \<in> label ` set answers" by auto
qed

text \<open>
  C6. For a step built with answers (its handler holds the answer index \<open>map_local\<close>), a
  message that is not a receipt for a pending payment and whose normalized text is the
  normalized label of none of the answers: the handler writes one log line with the sender,
  the current step, the first 200 characters of the raw and of the normalized text and the
  original labels of the index, sends the "use the buttons" notice, and leaves the session
  as it was. The logged labels are labels of the declared answers.
\<close>

theorem unmatched_reply_fallback:
  assumes "on_message (build_step (str_lower e) sid info) = Some map_local"
    and "\<not> takes_receipt_path m r"
    and "\<forall>ans \<in> set (info_answers info).
           normalize_label (str_lower e) (Some (label ans)) \<noteq> normalized_text e m"
  shows "on_msg fm e map_local m r =
           emit (Answer (escape_md_v2 (system_text e ''use_buttons'') False) None (Some MARKDOWN_V2))
             (write_log (UnmatchedReply (from_user_id m) (s_step (sess r))
                           (take 200 (text_or_empty m)) (take 200 (normalized_text e m))
                           (map (\<lambda>kv. orig (snd kv)) map_local)) r)
       \<and> sess (on_msg fm e map_local m r) = sess r
       \<and> set (map (\<lambda>kv. orig (snd kv)) map_local) \<subseteq> label ` set (info_answers info)"
proof -
  from build_step_handler [OF assms(1)]
  have ml: "map_local = make_action_map (str_lower e) (info_answers info)" by simp
  with assms(3) have miss: "map_of map_local (normalized_text e m) = None"
    by (simp add: make_action_map_miss)
  note th = on_msg_unmatched [OF assms(2) miss, of fm]
  have "sess (on_msg fm e map_local m r) = sess r" unfolding th by simp
  with th ml make_action_map_labels [of "str_lower e" "info_answers info"] show ?thesis
    by simp
qed

lemma escape_use_buttons:
  "escape_md_v2 (system_text (example_env now ok) ''use_buttons'') False =
     Str (ascii ''Use the buttons'')"
  by (simp add: system_text_def example_env_def example_texts_def
        escape_md_v2_def ascii_def base_special_def marker_class_def STAR_def UNDERSCORE_def)

theorem unmatched_reply_fallback_witness:
  "on_msg example_flow (example_env 1700000000 always_delivers) example_map (cash_message 7)
       (example_run pending_meta) =
     emit (Answer (Str (ascii ''Use the buttons'')) None (Some MARKDOWN_V2))
       (write_log (UnmatchedReply 7 (Some (ascii ''1''))
                     (PAID_TRIGGER @ ascii '' cash'') (PAID_TRIGGER @ ascii '' cash'')
                     [[1044, 1072],
                      [1054, 1087, 1083, 1072, 1090, 1080, 1083, 32, 1082, 1072, 1088, 1090, 1086, 1081]])
          (example_run pending_meta))
   \<and> sess (on_msg example_flow (example_env 1700000000 always_delivers) example_map
              (cash_message 7) (example_run pending_meta)) = sess (example_run pending_meta)"
proof -
  let ?e = "example_env 1700000000 always_delivers"
  let ?m = "cash_message 7"
  let ?r = "example_run pending_meta"
  have low: "str_lower ?e = lower_basic" by (simp add: example_env_def)
  have h1: "on_message (build_step (str_lower ?e) (ascii ''1'') example_info) = Some example_map"
    by (simp add: low build_step_def example_info_def example_map_def example_answers_def)
  have h2: "\<not> takes_receipt_path ?m ?r" by (simp add: cash_message_def text_message_no_receipt)
  have h3: "\<forall>ans \<in> set (info_answers example_info).
           normalize_label (str_lower ?e) (Some (label ans)) \<noteq> normalized_text ?e ?m"
    by (simp add: low cash_message_normalized example_info_def example_answers_def
          PAID_TRIGGER_def ascii_def eval_normalize)
  have vals: "from_user_id ?m = 7" "text_or_empty ?m = PAID_TRIGGER @ ascii '' cash''"
    "s_step (sess ?r) = Some (ascii ''1'')"
    by (simp_all add: cash_message_def text_message_def text_or_empty_def example_run_def)
  have tk: "take 200 (PAID_TRIGGER @ ascii '' cash'') = PAID_TRIGGER @ ascii '' cash''"
    by (simp add: PAID_TRIGGER_def ascii_def)
  have labels: "map (\<lambda>kv. orig (snd kv)) example_map =
      [[1044, 1072],
       [1054, 1087, 1083, 1072, 1090, 1080, 1083, 32, 1082, 1072, 1088, 1090, 1086, 1081]]"
    by (simp add: example_map_value)
  note th = unmatched_reply_fallback [OF h1 h2 h3, of example_flow]
  from th have "on_msg example_flow ?e example_map ?m ?r =
           emit (Answer (escape_md_v2 (system_text ?e ''use_buttons'') False) None (Some MARKDOWN_V2))
             (write_log (UnmatchedReply (from_user_id ?m) (s_step (sess ?r))
                           (take 200 (text_or_empty ?m)) (take 200 (normalized_text ?e ?m))
                           (map (\<lambda>kv. orig (snd kv)) example_map)) ?r)"
    by (rule conjunct1)
  then have c1: "on_msg example_flow ?e example_map ?m ?r =
     emit (Answer (Str (ascii ''Use the buttons'')) None (Some MARKDOWN_V2))
       (write_log (UnmatchedReply 7 (Some (ascii ''1''))
                     (PAID_TRIGGER @ ascii '' cash'') (PAID_TRIGGER @ ascii '' cash'')
                     [[1044, 1072],
                      [1054, 1087, 1083, 1072, 1090, 1080, 1083, 32, 1082, 1072, 1088, 1090, 1086, 1081]])
          ?r)"
    by (simp only: vals cash_message_normalized tk labels escape_use_buttons)
  from th have c2: "sess (on_msg example_flow ?e example_map ?m ?r) = sess ?r" by blast
  from c1 c2 show ?thesis by (intro conjI)
qed

subsection \<open>Broadcast\<close>

lemma broadcast_sends_result:
  "broadcast_sends e payload r =
     (sent_count e payload r,
      r\<lparr>outbox := outbox r @
           map (broadcast_call payload)
             (filter (\<lambda>u. delivers e (broadcast_call payload u))
                (sorted_list_of_set (load_users r))),
        logged := logged r @
           map BroadcastFailed
             (filter (\<lambda>u. \<not> delivers e (broadcast_call payload u))
                (sorted_list_of_set (load_users r)))\<rparr>)"
proof -
  have fin: "finite (load_users r)" by (simp add: load_users_def)
  show ?thesis
    unfolding broadcast_sends_def broadcast_loop_result sent_count_def
    by (simp add: count_delivered [OF fin])
qed

lemma cmd_broadcast_immediate:
  assumes "immediate_request e m"
  shows "cmd_broadcast e m r =
           unguarded e (broadcast_report (sent_count e (immediate_payload m) r)) (\<lambda>r. r)
             (snd (broadcast_sends e (immediate_payload m) r))"
  using assms
  by (simp add: cmd_broadcast_def immediate_request_def immediate_payload_def Let_def
        broadcast_sends_result)

lemma sess_add_user: "sess (add_user uid r) = sess r"
  by (simp add: add_user_def save_users_def Let_def)

lemma all_messages_immediate:
  assumes "immediate_request e m" and "hd (text_or_empty m) \<noteq> 47"
  shows "all_messages fm e m r =
           guarded e (broadcast_report (sent_count e (immediate_payload m)
                                          (add_user (from_user_id m) r))) (\<lambda>r. r)
             (\<lambda>r. awaited_block fm e m (write_log ImmediateBroadcastError r))
             (snd (broadcast_sends e (immediate_payload m) (add_user (from_user_id m) r)))"
  using assms
  by (simp add: all_messages_def immediate_request_def immediate_payload_def Let_def
        broadcast_sends_result)

lemma all_messages_awaited:
  assumes "hd (text_or_empty m) \<noteq> 47"
    and "\<not> prefix (ascii ''/broadcast '') (py_strip (text_or_empty m))"
    and "s_awaiting_broadcast (sess r) = Some True" and "Some (from_user_id m) = ADMIN_ID e"
    and "py_strip (text_or_empty m) \<noteq> []"
  shows "all_messages fm e m r =
           guarded e (broadcast_report (sent_count e (py_strip (text_or_empty m))
                                          (add_user (from_user_id m) r)))
             (\<lambda>r. r\<lparr>sess := (sess r)\<lparr>s_awaiting_broadcast := Some False\<rparr>\<rparr>)
             (\<lambda>r. flow_block fm e m (write_log AwaitedBroadcastError r))
             (snd (broadcast_sends e (py_strip (text_or_empty m)) (add_user (from_user_id m) r)))"
  using assms
  by (simp add: all_messages_def awaited_block_def Let_def sess_add_user broadcast_sends_result)

text \<open>
  C8, as amended. Over the \<open>N\<close> known users, of which \<open>K\<close> are those whose send the
  transport does not deliver: the loop hands over the message of every other user, in
  ascending order of the ids, logs one failure for each of the \<open>K\<close> and goes on, raises
  nothing, and counts \<open>N - K\<close>. When the report that carries this count is delivered,
  the handler ends with it and nothing has been raised: so for \<open>/broadcast <text>\<close> in
  \<open>cmd_broadcast\<close> and in \<open>all_messages\<close>.
\<close>

theorem broadcast_sent_count:
  "broadcast_sends e payload r =
     (sent_count e payload r,
      r\<lparr>outbox := outbox r @
           map (broadcast_call payload)
             (filter (\<lambda>u. delivers e (broadcast_call payload u))
                (sorted_list_of_set (load_users r))),
        logged := logged r @
           map BroadcastFailed
             (filter (\<lambda>u. \<not> delivers e (broadcast_call payload u))
                (sorted_list_of_set (load_users r)))\<rparr>)
   \<and> (immediate_request e m \<and>
       delivers e (broadcast_report (sent_count e (immediate_payload m) r)) \<longrightarrow>
         cmd_broadcast e m r =
           emit (broadcast_report (sent_count e (immediate_payload m) r))
             (snd (broadcast_sends e (immediate_payload m) r)))
   \<and> (immediate_request e m \<and> hd (text_or_empty m) \<noteq> 47 \<and>
       delivers e (broadcast_report (sent_count e (immediate_payload m)
                                       (add_user (from_user_id m) r))) \<longrightarrow>
         all_messages fm e m r =
           emit (broadcast_report (sent_count e (immediate_payload m)
                                     (add_user (from_user_id m) r)))
             (snd (broadcast_sends e (immediate_payload m) (add_user (from_user_id m) r))))"
  by (simp add: broadcast_sends_result [symmetric] cmd_broadcast_immediate all_messages_immediate
        unguarded_def guarded_def)

text \<open>
  Users 3, 5 and 8, the send to 5 fails: two sends, one logged failure, the report says 2.
\<close>

theorem broadcast_sent_count_witness:
  "outbox (cmd_broadcast (example_env 1700000000 fails_for_5) admin_command (example_run no_meta)) =
     [broadcast_call (ascii ''hi'') 3, broadcast_call (ascii ''hi'') 8,
      Answer (Str (BROADCAST_DONE @ ascii ''2'' @ BROADCAST_DONE_TAIL)) None None]
   \<and> logged (cmd_broadcast (example_env 1700000000 fails_for_5) admin_command
               (example_run no_meta)) = [BroadcastFailed 5]
   \<and> raised (cmd_broadcast (example_env 1700000000 fails_for_5) admin_command
               (example_run no_meta)) = None"
proof -
  let ?e = "example_env 1700000000 fails_for_5"
  let ?r = "example_run no_meta"
  have ok: "delivers ?e (broadcast_call (ascii ''hi'') u) \<longleftrightarrow> u \<noteq> 5" for u
    by (simp add: example_env_def fails_for_5_def broadcast_call_def)
  have failing: "{u \<in> load_users ?r. \<not> delivers ?e (broadcast_call (ascii ''hi'') u)} = {5}"
    by (auto simp: example_users ok)
  have cnt: "sent_count ?e (ascii ''hi'') ?r = 2"
    unfolding sent_count_def failing by (simp add: example_users)
  have rep: "delivers ?e (broadcast_report 2)"
    by (simp add: example_env_def fails_for_5_def broadcast_report_def)
  note th = broadcast_sent_count [of ?e "ascii ''hi''" ?r admin_command example_flow]
  from th have sends: "broadcast_sends ?e (ascii ''hi'') ?r =
     (2, ?r\<lparr>outbox := outbox ?r @ [broadcast_call (ascii ''hi'') 3, broadcast_call (ascii ''hi'') 8],
           logged := logged ?r @ [BroadcastFailed 5]\<rparr>)"
    by (simp add: cnt example_users example_sorted ok)
  from th admin_command_request [of 1700000000 fails_for_5] rep
  have "cmd_broadcast ?e admin_command ?r =
          emit (broadcast_report 2) (snd (broadcast_sends ?e (ascii ''hi'') ?r))"
    by (simp add: admin_command_payload cnt)
  then show ?thesis
    unfolding sends
    by (simp add: example_run_fields broadcast_report_def digit_2)
qed

text \<open>
  The report is sent after the loop. In \<open>cmd_broadcast\<close> it is outside any \<open>try\<close>: when it
  is not delivered, its exception leaves the handler. In \<open>all_messages\<close> the \<open>except\<close> of
  the block logs it, and the following blocks run; in the block for the awaited payload
  the flag is then not reset.
\<close>

lemma cmd_broadcast_report_lost:
  assumes "immediate_request e m"
    and "\<not> delivers e (broadcast_report (sent_count e (immediate_payload m) r))"
  shows "cmd_broadcast e m r =
           (snd (broadcast_sends e (immediate_payload m) r))\<lparr>raised := Some TransportError\<rparr>"
  using assms by (simp add: cmd_broadcast_immediate unguarded_def)

lemma all_messages_report_lost:
  assumes "immediate_request e m" and "hd (text_or_empty m) \<noteq> 47"
    and "\<not> delivers e (broadcast_report (sent_count e (immediate_payload m)
                                            (add_user (from_user_id m) r)))"
  shows "all_messages fm e m r =
           awaited_block fm e m
             (write_log ImmediateBroadcastError
                (snd (broadcast_sends e (immediate_payload m) (add_user (from_user_id m) r))))"
  using assms by (simp add: all_messages_immediate guarded_def)

text \<open>
  C8 as stated fails: every send to the three users is delivered, the report is not, and
  the exception leaves \<open>cmd_broadcast\<close> with no count reported.
\<close>

theorem broadcast_report_lost_counterexample:
  "immediate_request (example_env 1700000000 all_but_answers) admin_command
   \<and> outbox (cmd_broadcast (example_env 1700000000 all_but_answers) admin_command
               (example_run no_meta)) =
     [broadcast_call (ascii ''hi'') 3, broadcast_call (ascii ''hi'') 5,
      broadcast_call (ascii ''hi'') 8]
   \<and> logged (cmd_broadcast (example_env 1700000000 all_but_answers) admin_command
               (example_run no_meta)) = []
   \<and> raised (cmd_broadcast (example_env 1700000000 all_but_answers) admin_command
               (example_run no_meta)) = Some TransportError"
proof -
  let ?e = "example_env 1700000000 all_but_answers"
  let ?r = "example_run no_meta"
  have ok: "delivers ?e (broadcast_call (ascii ''hi'') u)" for u
    by (simp add: example_env_def all_but_answers_def broadcast_call_def)
  have rep: "\<not> delivers ?e (broadcast_report n)" for n
    by (simp add: example_env_def all_but_answers_def broadcast_report_def)
  have sends: "snd (broadcast_sends ?e (ascii ''hi'') ?r) =
     ?r\<lparr>outbox := outbox ?r @ [broadcast_call (ascii ''hi'') 3, broadcast_call (ascii ''hi'') 5,
                                 broadcast_call (ascii ''hi'') 8],
         logged := logged ?r @ []\<rparr>"
    by (simp add: broadcast_sends_result example_users example_sorted ok)
  have "cmd_broadcast ?e admin_command ?r =
          (snd (broadcast_sends ?e (ascii ''hi'') ?r))\<lparr>raised := Some TransportError\<rparr>"
    using cmd_broadcast_report_lost
            [where e = ?e and m = admin_command and r = ?r, OF admin_command_request rep]
    by (simp add: admin_command_payload)
  then show ?thesis
    unfolding sends
    by (simp add: example_run_fields admin_command_request)
qed

subsection \<open>The order tag\<close>

lemma stored_tag_paid:
  assumes "payment_intent e ml m r"
  shows "stored_order_tag (on_msg fm e ml m r) = Some (str_int (time_seconds e))"
proof -
  from assms obtain en where "map_of ml (normalized_text e m) = Some en"
    by (auto simp: payment_intent_def)
  with assms have "on_msg fm e ml m r =
           emit (Answer (escape_md_v2 (system_text e ''send_receipt_instr'') False)
                   (Some ReplyKeyboardRemove) (Some MARKDOWN_V2))
             (r\<lparr>sess := (sess r)\<lparr>s_meta := Some ((get_meta (sess r))(''pending_payment'' \<mapsto>
                  \<lparr>p_order_tag = str_int (time_seconds e), p_method = normalized_text e m\<rparr>))\<rparr>\<rparr>)"
    by (intro on_msg_paid) (auto simp: payment_intent_def)
  then show ?thesis by (simp add: stored_order_tag_def get_meta_def)
qed

text \<open>
  C9, as amended. Every payment-intent activation stores an order tag that is not empty:
  the decimal rendering of the clock's whole seconds at that moment. Two activations get
  the same tag exactly when their clock readings are the same second.
\<close>

theorem order_tag_is_clock_reading:
  assumes "payment_intent e1 ml1 m1 r1" and "payment_intent e2 ml2 m2 r2"
  shows "stored_order_tag (on_msg fm1 e1 ml1 m1 r1) = Some (str_int (time_seconds e1))
     \<and> str_int (time_seconds e1) \<noteq> []
     \<and> (stored_order_tag (on_msg fm1 e1 ml1 m1 r1) = stored_order_tag (on_msg fm2 e2 ml2 m2 r2)
          \<longleftrightarrow> time_seconds e1 = time_seconds e2)"
  by (simp add: stored_tag_paid [OF assms(1)] stored_tag_paid [OF assms(2)]
        str_int_nonempty str_int_inj)

lemma paid_message_intent: "payment_intent (example_env now ok) example_map (paid_message uid) r"
  by (simp add: payment_intent_def paid_message_normalized example_map_value prefix_paid)
    (simp add: paid_message_def text_message_no_receipt example_env_def lower_basic_def
       lower_basic_cp_def paid_normalized_def PAID_TRIGGER_def)

theorem order_tag_is_clock_reading_witness:
  "stored_order_tag (on_msg example_flow (example_env 1700000000 always_delivers) example_map
                       (paid_message 7) (example_run no_meta)) = Some (ascii ''1700000000'')
   \<and> stored_order_tag (on_msg example_flow (example_env 1700000001 always_delivers) example_map
                       (paid_message 7) (example_run no_meta)) = Some (ascii ''1700000001'')
   \<and> stored_order_tag (on_msg example_flow (example_env 1700000000 always_delivers) example_map
                       (paid_message 7) (example_run no_meta))
     \<noteq> stored_order_tag (on_msg example_flow (example_env 1700000001 always_delivers) example_map
                       (paid_message 7) (example_run no_meta))"
proof -
  let ?e1 = "example_env 1700000000 always_delivers"
  let ?e2 = "example_env 1700000001 always_delivers"
  let ?m = "paid_message 7"
  let ?r = "example_run no_meta"
  have t1: "str_int (time_seconds ?e1) = ascii ''1700000000''"
    by (simp add: example_env_def str_int_def digits_of.simps ascii_def)
  have t2: "str_int (time_seconds ?e2) = ascii ''1700000001''"
    by (simp add: example_env_def str_int_def digits_of.simps ascii_def)
  have ne: "time_seconds ?e1 \<noteq> time_seconds ?e2" by (simp add: example_env_def)
  note i1 = paid_message_intent [of 1700000000 always_delivers 7 ?r]
  note i2 = paid_message_intent [of 1700000001 always_delivers 7 ?r]
  note a = order_tag_is_clock_reading [OF i1 i2, of example_flow example_flow]
  note b = order_tag_is_clock_reading [OF i2 i1, of example_flow example_flow]
  from a have c1: "stored_order_tag (on_msg example_flow ?e1 example_map ?m ?r) = Some (ascii ''1700000000'')"
    by (simp only: t1)
  from b have c2: "stored_order_tag (on_msg example_flow ?e2 example_map ?m ?r) = Some (ascii ''1700000001'')"
    by (simp only: t2)
  from a ne have c3: "stored_order_tag (on_msg example_flow ?e1 example_map ?m ?r)
     \<noteq> stored_order_tag (on_msg example_flow ?e2 example_map ?m ?r)"
    by blast
  from c1 c2 c3 show ?thesis by (intro conjI)
qed

text \<open>
  C9 as stated fails: users 7 and 8 send the trigger text in the same second and get the
  same order tag.
\<close>

theorem order_tag_same_second_counterexample:
  "paid_message 7 \<noteq> paid_message 8
   \<and> payment_intent (example_env 1700000000 always_delivers) example_map (paid_message 7)
        (example_run no_meta)
   \<and> payment_intent (example_env 1700000000 always_delivers) example_map (paid_message 8)
        (example_run no_meta)
   \<and> stored_order_tag (on_msg example_flow (example_env 1700000000 always_delivers) example_map
                       (paid_message 7) (example_run no_meta)) = Some (ascii ''1700000000'')
   \<and> stored_order_tag (on_msg example_flow (example_env 1700000000 always_delivers) example_map
                       (paid_message 8) (example_run no_meta)) = Some (ascii ''1700000000'')"
proof -
  let ?e = "example_env 1700000000 always_delivers"
  have t: "str_int (time_seconds ?e) = ascii ''1700000000''"
    by (simp add: example_env_def str_int_def digits_of.simps ascii_def)
  have d: "paid_message 7 \<noteq> paid_message 8" by (simp add: paid_message_def text_message_def)
  from d paid_message_intent [of 1700000000 always_delivers 7 "example_run no_meta"]
    paid_message_intent [of 1700000000 always_delivers 8 "example_run no_meta"]
    stored_tag_paid [OF paid_message_intent [of 1700000000 always_delivers 7 "example_run no_meta"],
      of example_flow]
    stored_tag_paid [OF paid_message_intent [of 1700000000 always_delivers 8 "example_run no_meta"],
      of example_flow]
  show ?thesis by (simp only: t simp_thms)
qed

end
